theory Spec2Isabelle
  imports Main "HOL-Library.Multiset"
begin

section \<open>The converter of Java Agent JMX definitions (nri-jmx)\<close>

text \<open>
  A shallow embedding of the converter that reads a New Relic Java Agent JMX definition
  and reduces it to the nri-jmx collection format: \<^verbatim>\<open>reduceJavaAgentYaml\<close>,
  \<^verbatim>\<open>buildCollectionDefinition\<close>, \<^verbatim>\<open>convertMetricType\<close>, \<^verbatim>\<open>getEventName\<close> and
  \<^verbatim>\<open>makeInsightsCompliantEventType\<close>. A Go \<^verbatim>\<open>string\<close> is a sequence of bytes and is
  modelled as \<^typ>\<open>string\<close> (a list of 8-bit characters). A run-time panic is a value
  of type \<open>panic\<close>; a function that can panic returns \<open>panic + 'a\<close>.
\<close>

subsection \<open>Run-time panics\<close>

datatype panic = IndexOutOfRange | SliceBoundsOutOfRange

text \<open>The indexing \<^verbatim>\<open>xs[i]\<close> of a slice: Go panics when the index is out of range.\<close>

definition goIndex :: "'a list \<Rightarrow> nat \<Rightarrow> panic + 'a" where
  "goIndex xs i = (if i < length xs then Inr (xs ! i) else Inl IndexOutOfRange)"

text \<open>
  The slicing \<^verbatim>\<open>s[lo : len(s)-k]\<close> of a string: Go panics when the upper bound is
  negative or below the lower bound.
\<close>

definition goSliceFromEnd :: "string \<Rightarrow> nat \<Rightarrow> nat \<Rightarrow> panic + string" where
  "goSliceFromEnd s lo k =
     (if length s < k \<or> length s - k < lo then Inl SliceBoundsOutOfRange
      else Inr (take (length s - k - lo) (drop lo s)))"

subsection \<open>The functions of Go's package strings that the converter calls\<close>

text \<open>
  \<^verbatim>\<open>strings.Split(s, sep)\<close>. The converter calls it with the one-byte separators
  \<^verbatim>\<open>":"\<close>, \<^verbatim>\<open>","\<close> and \<^verbatim>\<open>"="\<close> only, so the separator is a character here. The
  result has one more element than \<open>s\<close> has separators; it is never empty.
\<close>

primrec Split :: "string \<Rightarrow> char \<Rightarrow> string list" where
  "Split [] sep = [[]]"
| "Split (c # cs) sep =
     (if c = sep then [] # Split cs sep
      else (case Split cs sep of
              [] \<Rightarrow> [[c]]
            | x # xs \<Rightarrow> (c # x) # xs))"

text \<open>
  \<^verbatim>\<open>strings.Replace(s, old, new, -1)\<close>: every non-overlapping occurrence of \<open>old\<close>,
  from the left. The converter never passes an empty \<open>old\<close> (Go would then insert
  \<open>new\<close> around every rune); the model leaves \<open>s\<close> as it is in that case.
\<close>

fun Replace :: "string \<Rightarrow> string \<Rightarrow> string \<Rightarrow> string" where
  "Replace [] old new = []"
| "Replace (c # cs) old new =
     (if old \<noteq> [] \<and> take (length old) (c # cs) = old
      then new @ Replace (drop (length old - 1) cs) old new
      else c # Replace cs old new)"

text \<open>
  \<^verbatim>\<open>strings.TrimSpace(s)\<close> removes the leading and the trailing white space, as
  Unicode defines it, of a UTF-8 string. The white space code points are U+0009 to
  U+000D, U+0020, U+0085, U+00A0, U+1680, U+2000 to U+200A, U+2028, U+2029, U+202F,
  U+205F and U+3000; a byte sequence that is not the UTF-8 encoding of one of them
  (an invalid sequence included) is not white space.
\<close>

definition asciiSpace :: "char \<Rightarrow> bool" where
  "asciiSpace c \<longleftrightarrow> c \<in> set [CHR 0x09, CHR 0x0A, CHR 0x0B, CHR 0x0C, CHR 0x0D, CHR 0x20]"

text \<open>The UTF-8 encodings of the white space code points above U+007F.\<close>

definition unicodeSpace2 :: "string list" where
  "unicodeSpace2 = [[CHR 0xC2, CHR 0x85], [CHR 0xC2, CHR 0xA0]]"

definition unicodeSpace3 :: "string list" where
  "unicodeSpace3 =
     [[CHR 0xE1, CHR 0x9A, CHR 0x80],
      [CHR 0xE2, CHR 0x80, CHR 0x80], [CHR 0xE2, CHR 0x80, CHR 0x81],
      [CHR 0xE2, CHR 0x80, CHR 0x82], [CHR 0xE2, CHR 0x80, CHR 0x83],
      [CHR 0xE2, CHR 0x80, CHR 0x84], [CHR 0xE2, CHR 0x80, CHR 0x85],
      [CHR 0xE2, CHR 0x80, CHR 0x86], [CHR 0xE2, CHR 0x80, CHR 0x87],
      [CHR 0xE2, CHR 0x80, CHR 0x88], [CHR 0xE2, CHR 0x80, CHR 0x89],
      [CHR 0xE2, CHR 0x80, CHR 0x8A], [CHR 0xE2, CHR 0x80, CHR 0xA8],
      [CHR 0xE2, CHR 0x80, CHR 0xA9], [CHR 0xE2, CHR 0x80, CHR 0xAF],
      [CHR 0xE2, CHR 0x81, CHR 0x9F], [CHR 0xE3, CHR 0x80, CHR 0x80]]"

text \<open>
  The number of bytes of the white space rune a string starts with, 0 when it starts
  with none.
\<close>

definition leadingSpace :: "string \<Rightarrow> nat" where
  "leadingSpace s =
     (case s of
        [] \<Rightarrow> 0
      | c # cs \<Rightarrow>
          if asciiSpace c then 1
          else if take 2 s \<in> set unicodeSpace2 then 2
          else if take 3 s \<in> set unicodeSpace3 then 3
          else 0)"

fun TrimLeftSpace :: "string \<Rightarrow> string" where
  "TrimLeftSpace [] = []"
| "TrimLeftSpace (c # cs) =
     (if leadingSpace (c # cs) = 0 then c # cs
      else TrimLeftSpace (drop (leadingSpace (c # cs) - 1) cs))"

text \<open>
  The same from the end, on the reversed string: the rune a string ends with is found
  by reading its last bytes backwards.
\<close>

definition trailingSpace :: "string \<Rightarrow> nat" where
  "trailingSpace r =
     (case r of
        [] \<Rightarrow> 0
      | c # cs \<Rightarrow>
          if asciiSpace c then 1
          else if rev (take 2 r) \<in> set unicodeSpace2 then 2
          else if rev (take 3 r) \<in> set unicodeSpace3 then 3
          else 0)"

fun trimRev :: "string \<Rightarrow> string" where
  "trimRev [] = []"
| "trimRev (c # cs) =
     (if trailingSpace (c # cs) = 0 then c # cs
      else trimRev (drop (trailingSpace (c # cs) - 1) cs))"

definition TrimRightSpace :: "string \<Rightarrow> string" where
  "TrimRightSpace s = rev (trimRev (rev s))"

definition TrimSpace :: "string \<Rightarrow> string" where
  "TrimSpace s = TrimRightSpace (TrimLeftSpace s)"

subsection \<open>The regular expression of the name templates\<close>

text \<open>
  \<^verbatim>\<open>regexp.Compile("{\\w+}")\<close>: an opening brace, one or more word characters
  (\<^verbatim>\<open>[0-9A-Za-z_]\<close>) and a closing brace. A closing brace is no word character, so a
  match at a position takes the longest run of word characters there.
\<close>

definition isWordChar :: "char \<Rightarrow> bool" where
  "isWordChar c \<longleftrightarrow>
     c \<in> set ''0123456789ABCDEFGHIJKLMNOPQRSTUVWXYZabcdefghijklmnopqrstuvwxyz_''"

text \<open>The length of the match that starts at the head of the string, 0 when none does.\<close>

definition matchLen :: "string \<Rightarrow> nat" where
  "matchLen s =
     (case s of
        [] \<Rightarrow> 0
      | c # cs \<Rightarrow>
          if c = CHR ''{'' \<and> takeWhile isWordChar cs \<noteq> []
             \<and> take 1 (dropWhile isWordChar cs) = ''}''
          then length (takeWhile isWordChar cs) + 2
          else 0)"

text \<open>\<^verbatim>\<open>objNameRegex.MatchString(s)\<close>: some position of \<open>s\<close> starts a match.\<close>

primrec MatchString :: "string \<Rightarrow> bool" where
  "MatchString [] = False"
| "MatchString (c # cs) = (matchLen (c # cs) \<noteq> 0 \<or> MatchString cs)"

text \<open>
  \<^verbatim>\<open>objNameRegex.FindAllString(s, -1)\<close>: the successive non-overlapping matches, each
  the leftmost one after the end of the match before it.
\<close>

fun FindAllString :: "string \<Rightarrow> string list" where
  "FindAllString [] = []"
| "FindAllString (c # cs) =
     (if matchLen (c # cs) = 0 then FindAllString cs
      else take (matchLen (c # cs)) (c # cs) # FindAllString (drop (matchLen (c # cs) - 1) cs))"

subsection \<open>Metric kinds and event names\<close>

definition defaultEventType :: string where
  "defaultEventType = ''JMXSample''"

definition sep :: string where
  "sep = ''_''"

definition convertMetricType :: "string \<Rightarrow> string" where
  "convertMetricType metrictype =
     (let t = TrimSpace metrictype in
      if t = ''simple'' then ''gauge''
      else if t = ''monotonically_increasing'' then ''delta''
      else ''gauge'')"

definition makeInsightsCompliantEventType :: "string \<Rightarrow> string" where
  "makeInsightsCompliantEventType inString =
     Replace (Replace inString '' '' ''_'') ''/'' '':''"

text \<open>
  The loop of \<^verbatim>\<open>getEventName\<close> over the comma-separated pairs of the query:
  \<^verbatim>\<open>queryMap[querySplit[0]] = querySplit[1]\<close>.
\<close>

fun buildQueryMap :: "string list \<Rightarrow> (string \<rightharpoonup> string) \<Rightarrow> panic + (string \<rightharpoonup> string)" where
  "buildQueryMap [] queryMap = Inr queryMap"
| "buildQueryMap (thisQuery # rest) queryMap =
     (let querySplit = Split thisQuery CHR ''='' in
      case goIndex querySplit 0 of
        Inl e \<Rightarrow> Inl e
      | Inr k \<Rightarrow>
          (case goIndex querySplit 1 of
             Inl e \<Rightarrow> Inl e
           | Inr v \<Rightarrow> buildQueryMap rest (queryMap(k \<mapsto> v))))"

text \<open>
  The loop of \<^verbatim>\<open>getEventName\<close> over the matches found in the template as it was
  given: each match whose name is a key of the query map is replaced, everywhere in the
  template as it is by then, by the value of that key.
\<close>

fun substituteMatches :: "(string \<rightharpoonup> string) \<Rightarrow> string list \<Rightarrow> string \<Rightarrow> panic + string" where
  "substituteMatches queryMap [] rootMetricName = Inr rootMetricName"
| "substituteMatches queryMap (thisObj # rest) rootMetricName =
     (case goSliceFromEnd thisObj 1 1 of
        Inl e \<Rightarrow> Inl e
      | Inr testObj \<Rightarrow>
          (case queryMap testObj of
             Some objVal \<Rightarrow>
               substituteMatches queryMap rest (Replace rootMetricName thisObj objVal)
           | None \<Rightarrow> substituteMatches queryMap rest rootMetricName))"

definition getEventName :: "string \<Rightarrow> string \<Rightarrow> string \<Rightarrow> panic + string" where
  "getEventName oldName0 rootMetricName query =
     (let oldName = (if oldName0 = [] then defaultEventType else oldName0) in
      if rootMetricName = [] then Inr (makeInsightsCompliantEventType oldName)
      else if MatchString rootMetricName then
        (case buildQueryMap (Split query CHR '','') Map.empty of
           Inl e \<Rightarrow> Inl e
         | Inr queryMap \<Rightarrow>
             (case substituteMatches queryMap (FindAllString rootMetricName) rootMetricName of
                Inl e \<Rightarrow> Inl e
              | Inr r \<Rightarrow> Inr (makeInsightsCompliantEventType (oldName @ sep @ r))))
      else Inr (makeInsightsCompliantEventType (oldName @ sep @ rootMetricName)))"

subsection \<open>The parsed Java Agent definition\<close>

text \<open>
  The structs that the YAML decoder fills. \<^verbatim>\<open>Version float32\<close> is decoded and never
  read; the model leaves it out.
\<close>

record metricsDefinitionParser =
  Attributes :: string
  Type :: string

record jmxDefinitionParser =
  ObjectName :: string
  RootMetricName :: string
  Metrics :: "metricsDefinitionParser list"

record mainDefinitionParser =
  Name :: string
  Enabled :: bool
  JMX :: "jmxDefinitionParser list"

subsection \<open>The reducer's maps\<close>

text \<open>
  \<^verbatim>\<open>map[string]*domainReducer\<close>, \<^verbatim>\<open>map[string]*beanReducer\<close> and
  \<^verbatim>\<open>map[string]*attributeReducer\<close>: a Go map is a finite partial function. Every
  reducer object is allocated by \<^verbatim>\<open>reduceJavaAgentYaml\<close> and stored under one key of
  one map, so the maps hold the objects themselves.
\<close>

record attributeReducer =
  MetricType :: string
  MetricName :: string

record beanReducer =
  AttributesMap :: "string \<rightharpoonup> attributeReducer"

record domainReducer =
  EventType :: string
  BeansMap :: "string \<rightharpoonup> beanReducer"

text \<open>
  The variables of one pass of the loop over \<^verbatim>\<open>m.JMX\<close>. \<^verbatim>\<open>thisDomain\<close> and
  \<^verbatim>\<open>thisBean\<close> are pointers into the maps, \<^verbatim>\<open>nil\<close> at first: a pointer is the path
  of keys that leads to its object, \<open>Some d\<close> for the domain stored under \<open>d\<close> and
  \<open>Some (d, q)\<close> for the bean stored under \<open>q\<close> in that domain.
\<close>

record reduceState =
  thisDomainMap :: "string \<rightharpoonup> domainReducer"
  thisDomain :: "string option"
  thisBean :: "(string \<times> string) option"

text \<open>
  Reading \<^verbatim>\<open>thisBean.AttributesMap\<close>, and the writes
  \<^verbatim>\<open>thisBean.AttributesMap[a] = r\<close> and \<^verbatim>\<open>thisDomain.BeansMap[q] = b\<close>, through
  such a pointer. The reducer holds a pointer only to an object it has looked up or
  stored in this pass, so the branches for a path that leads nowhere are never taken
  (the invariant \<open>ptrInv\<close> and \<open>attrStep_effect\<close> below).
\<close>

definition attrsAt :: "(string \<rightharpoonup> domainReducer) \<Rightarrow> string \<times> string \<Rightarrow> (string \<rightharpoonup> attributeReducer)" where
  "attrsAt dm p =
     (case dm (fst p) of
        None \<Rightarrow> Map.empty
      | Some dr \<Rightarrow> (case BeansMap dr (snd p) of None \<Rightarrow> Map.empty | Some b \<Rightarrow> AttributesMap b))"

definition setBean :: "(string \<rightharpoonup> domainReducer) \<Rightarrow> string \<Rightarrow> string \<Rightarrow> beanReducer \<Rightarrow> (string \<rightharpoonup> domainReducer)" where
  "setBean dm d q b =
     (case dm d of
        None \<Rightarrow> dm
      | Some dr \<Rightarrow> dm(d \<mapsto> dr\<lparr>BeansMap := (BeansMap dr)(q \<mapsto> b)\<rparr>))"

definition setAttr :: "(string \<rightharpoonup> domainReducer) \<Rightarrow> string \<times> string \<Rightarrow> string \<Rightarrow> attributeReducer \<Rightarrow> (string \<rightharpoonup> domainReducer)" where
  "setAttr dm p a r =
     (case dm (fst p) of
        None \<Rightarrow> dm
      | Some dr \<Rightarrow>
          (case BeansMap dr (snd p) of
             None \<Rightarrow> dm
           | Some b \<Rightarrow> setBean dm (fst p) (snd p) (b\<lparr>AttributesMap := (AttributesMap b)(a \<mapsto> r)\<rparr>)))"

subsection \<open>reduceJavaAgentYaml\<close>

text \<open>The body of the innermost loop, over the comma-separated attributes of one metric.\<close>

definition attrStep ::
  "string \<Rightarrow> jmxDefinitionParser \<Rightarrow> string list \<Rightarrow> metricsDefinitionParser \<Rightarrow>
   reduceState \<Rightarrow> string \<Rightarrow> panic + reduceState" where
  "attrStep mName jmxObject domainAndQuery thisMetric st rawAttr =
     (let thisAttr = TrimSpace rawAttr;
          newAttr = \<lparr>MetricType = convertMetricType (Type thisMetric), MetricName = thisAttr\<rparr>
      in case thisBean st of
           Some p \<Rightarrow>
             (if attrsAt (thisDomainMap st) p thisAttr = None
              then Inr (st\<lparr>thisDomainMap := setAttr (thisDomainMap st) p thisAttr newAttr\<rparr>)
              else Inr st)
         | None \<Rightarrow>
             (let newBean = \<lparr>AttributesMap = [thisAttr \<mapsto> newAttr]\<rparr>
              in case thisDomain st of
                   None \<Rightarrow>
                     (case goIndex domainAndQuery 1 of
                        Inl e \<Rightarrow> Inl e
                      | Inr q \<Rightarrow>
                          (case getEventName mName (RootMetricName jmxObject) q of
                             Inl e \<Rightarrow> Inl e
                           | Inr outEventType \<Rightarrow>
                               (case goIndex domainAndQuery 0 of
                                  Inl e \<Rightarrow> Inl e
                                | Inr d \<Rightarrow>
                                    Inr (st\<lparr>thisDomainMap := (thisDomainMap st)
                                               (d \<mapsto> \<lparr>EventType = outEventType,
                                                       BeansMap = [q \<mapsto> newBean]\<rparr>),
                                            thisBean := Some (d, q)\<rparr>))))
                 | Some d \<Rightarrow>
                     (case goIndex domainAndQuery 1 of
                        Inl e \<Rightarrow> Inl e
                      | Inr q \<Rightarrow>
                          Inr (st\<lparr>thisDomainMap := setBean (thisDomainMap st) d q newBean,
                                  thisBean := Some (d, q)\<rparr>))))"

text \<open>The loop over the attributes of one metric: it stops at the first panic.\<close>

fun attrLoop ::
  "string \<Rightarrow> jmxDefinitionParser \<Rightarrow> string list \<Rightarrow> metricsDefinitionParser \<Rightarrow>
   reduceState \<Rightarrow> string list \<Rightarrow> panic + reduceState" where
  "attrLoop mName jmxObject domainAndQuery thisMetric st [] = Inr st"
| "attrLoop mName jmxObject domainAndQuery thisMetric st (rawAttr # inAttrs) =
     (case attrStep mName jmxObject domainAndQuery thisMetric st rawAttr of
        Inl e \<Rightarrow> Inl e
      | Inr st' \<Rightarrow> attrLoop mName jmxObject domainAndQuery thisMetric st' inAttrs)"

text \<open>The loop over \<^verbatim>\<open>jmxObject.Metrics\<close>.\<close>

fun metricLoop ::
  "string \<Rightarrow> jmxDefinitionParser \<Rightarrow> string list \<Rightarrow> reduceState \<Rightarrow>
   metricsDefinitionParser list \<Rightarrow> panic + reduceState" where
  "metricLoop mName jmxObject domainAndQuery st [] = Inr st"
| "metricLoop mName jmxObject domainAndQuery st (thisMetric # metrics) =
     (case attrLoop mName jmxObject domainAndQuery thisMetric st
             (Split (Attributes thisMetric) CHR '','') of
        Inl e \<Rightarrow> Inl e
      | Inr st' \<Rightarrow> metricLoop mName jmxObject domainAndQuery st' metrics)"

text \<open>
  One pass of the loop over \<^verbatim>\<open>m.JMX\<close>: the object name is split at every colon, the
  domain and the bean are looked up (the lookup of the bean reads
  \<^verbatim>\<open>domainAndQuery[1]\<close>), then the metrics are walked.
\<close>

definition reduceObject ::
  "string \<Rightarrow> (string \<rightharpoonup> domainReducer) \<Rightarrow> jmxDefinitionParser \<Rightarrow>
   panic + (string \<rightharpoonup> domainReducer)" where
  "reduceObject mName dm jmxObject =
     (let domainAndQuery = Split (ObjectName jmxObject) CHR '':'' in
      case goIndex domainAndQuery 0 of
        Inl e \<Rightarrow> Inl e
      | Inr d \<Rightarrow>
          (case (case dm d of
                   None \<Rightarrow> Inr \<lparr>thisDomainMap = dm, thisDomain = None, thisBean = None\<rparr>
                 | Some dr \<Rightarrow>
                     (case goIndex domainAndQuery 1 of
                        Inl e \<Rightarrow> Inl e
                      | Inr q \<Rightarrow>
                          Inr \<lparr>thisDomainMap = dm, thisDomain = Some d,
                               thisBean = (if BeansMap dr q \<noteq> None then Some (d, q) else None)\<rparr>)) of
             Inl e \<Rightarrow> Inl e
           | Inr st \<Rightarrow>
               (case metricLoop mName jmxObject domainAndQuery st (Metrics jmxObject) of
                  Inl e \<Rightarrow> Inl e
                | Inr st' \<Rightarrow> Inr (thisDomainMap st'))))"

fun reduceLoop ::
  "string \<Rightarrow> (string \<rightharpoonup> domainReducer) \<Rightarrow> jmxDefinitionParser list \<Rightarrow>
   panic + (string \<rightharpoonup> domainReducer)" where
  "reduceLoop mName dm [] = Inr dm"
| "reduceLoop mName dm (jmxObject # rest) =
     (case reduceObject mName dm jmxObject of
        Inl e \<Rightarrow> Inl e
      | Inr dm' \<Rightarrow> reduceLoop mName dm' rest)"

text \<open>
  \<^verbatim>\<open>reduceJavaAgentYaml\<close>. Its \<^verbatim>\<open>error\<close> result is always \<^verbatim>\<open>nil\<close>; the only
  way not to return the map is a panic.
\<close>

definition reduceJavaAgentYaml :: "mainDefinitionParser \<Rightarrow> panic + (string \<rightharpoonup> domainReducer)" where
  "reduceJavaAgentYaml m = reduceLoop (Name m) Map.empty (JMX m)"

subsection \<open>buildCollectionDefinition\<close>

text \<open>
  The output structs. The fields \<^verbatim>\<open>Domain\<close>, \<^verbatim>\<open>EventType\<close>, \<^verbatim>\<open>Attributes\<close>,
  \<^verbatim>\<open>MetricType\<close> and \<^verbatim>\<open>MetricName\<close> carry the suffix \<open>_o\<close> here: the first is a
  constant of HOL, the others are fields of the records above.
\<close>

record attributeOutput =
  Attr :: string
  MetricType_o :: string
  MetricName_o :: string

record beanOutput =
  Query :: string
  Attributes_o :: "attributeOutput list"

record domainOutput =
  Domain_o :: string
  EventType_o :: string
  Beans :: "beanOutput list"

text \<open>
  \<^verbatim>\<open>for k, v := range m\<close> over a Go map visits every entry once, in an order that the
  language leaves unspecified and that differs from one run to the next:
  \<open>rangeMap m kvs\<close> holds when \<open>kvs\<close> is one such sequence of visits.
\<close>

definition rangeMap :: "('k \<rightharpoonup> 'v) \<Rightarrow> ('k \<times> 'v) list \<Rightarrow> bool" where
  "rangeMap m kvs \<longleftrightarrow> distinct (map fst kvs) \<and> map_of kvs = m"

text \<open>
  The three nested loops of \<^verbatim>\<open>buildCollectionDefinition\<close>, innermost first; each
  relates a map to the lists that the loop over it can append.
\<close>

inductive buildAttributes :: "beanReducer \<Rightarrow> attributeOutput list \<Rightarrow> bool" where
  "rangeMap (AttributesMap beanContents) kvs \<Longrightarrow>
   buildAttributes beanContents
     (map (\<lambda>(attribute, attributeContents).
             \<lparr>Attr = attribute, MetricType_o = MetricType attributeContents,
              MetricName_o = MetricName attributeContents\<rparr>) kvs)"

inductive buildBeans :: "domainReducer \<Rightarrow> beanOutput list \<Rightarrow> bool" where
  "rangeMap (BeansMap domainContents) kvs \<Longrightarrow>
   list_all2 (\<lambda>(bean, beanContents) out.
                Query out = bean \<and> buildAttributes beanContents (Attributes_o out)) kvs beans \<Longrightarrow>
   buildBeans domainContents beans"

inductive buildCollectionDefinition :: "(string \<rightharpoonup> domainReducer) \<Rightarrow> domainOutput list \<Rightarrow> bool" where
  "rangeMap dr kvs \<Longrightarrow>
   list_all2 (\<lambda>(domain, domainContents) out.
                Domain_o out = domain \<and> EventType_o out = EventType domainContents
                \<and> buildBeans domainContents (Beans out)) kvs domains \<Longrightarrow>
   buildCollectionDefinition dr domains"

section \<open>The vocabulary of the specification\<close>

subsection \<open>Name templates and queries\<close>

text \<open>A template contains a placeholder: a brace pair around one or more word characters.\<close>

definition hasPlaceholder :: "string \<Rightarrow> bool" where
  "hasPlaceholder t \<longleftrightarrow>
     (\<exists>pre w post. t = pre @ ''{'' @ w @ ''}'' @ post \<and> w \<noteq> [] \<and> list_all isWordChar w)"

text \<open>
  The key of a pair of the query is the text before its first \<open>=\<close>; its value is the
  text between its first and its second \<open>=\<close> (up to the end when there is no second).
\<close>

definition pairKey :: "string \<Rightarrow> string" where
  "pairKey p = takeWhile (\<lambda>c. c \<noteq> CHR ''='') p"

definition pairValue :: "string \<Rightarrow> string" where
  "pairValue p = takeWhile (\<lambda>c. c \<noteq> CHR ''='') (drop 1 (dropWhile (\<lambda>c. c \<noteq> CHR ''='') p))"

text \<open>The mapping of a query: of two pairs with one key, the later one counts.\<close>

definition queryMapping :: "string \<Rightarrow> (string \<rightharpoonup> string)" where
  "queryMapping query = map_of (rev (map (\<lambda>p. (pairKey p, pairValue p)) (Split query CHR '','')))"

definition placeholderName :: "string \<Rightarrow> string" where
  "placeholderName placeholder = butlast (tl placeholder)"

text \<open>
  One substitution: when the name of the placeholder is a key, every occurrence of the
  placeholder in \<open>t\<close> becomes the value; otherwise \<open>t\<close> stays as it is.
\<close>

definition substituteOne :: "(string \<rightharpoonup> string) \<Rightarrow> string \<Rightarrow> string \<Rightarrow> string" where
  "substituteOne kv placeholder t =
     (case kv (placeholderName placeholder) of Some v \<Rightarrow> Replace t placeholder v | None \<Rightarrow> t)"

subsection \<open>Domains, queries and occurrences of attributes\<close>

text \<open>
  The domain of a declaration is the text of its object name before the first colon;
  its query is the text between the first and the second colon (up to the end when
  there is no second).
\<close>

definition domainOf :: "jmxDefinitionParser \<Rightarrow> string" where
  "domainOf j = takeWhile (\<lambda>c. c \<noteq> CHR '':'') (ObjectName j)"

definition queryOf :: "jmxDefinitionParser \<Rightarrow> string" where
  "queryOf j =
     takeWhile (\<lambda>c. c \<noteq> CHR '':'') (drop 1 (dropWhile (\<lambda>c. c \<noteq> CHR '':'') (ObjectName j)))"

text \<open>
  The occurrences of attributes in a definition, in the order of the input: domain,
  query, trimmed attribute name and the legacy kind of the metric group.
\<close>

definition metricOccurrences ::
  "jmxDefinitionParser \<Rightarrow> metricsDefinitionParser \<Rightarrow> (string \<times> string \<times> string \<times> string) list" where
  "metricOccurrences j g =
     map (\<lambda>raw. (domainOf j, queryOf j, TrimSpace raw, Type g)) (Split (Attributes g) CHR '','')"

definition declOccurrences :: "jmxDefinitionParser \<Rightarrow> (string \<times> string \<times> string \<times> string) list" where
  "declOccurrences j = concat (map (metricOccurrences j) (Metrics j))"

definition occurrences :: "mainDefinitionParser \<Rightarrow> (string \<times> string \<times> string \<times> string) list" where
  "occurrences m = concat (map declOccurrences (JMX m))"

definition firstOccurrence ::
  "mainDefinitionParser \<Rightarrow> string \<Rightarrow> string \<Rightarrow> string \<Rightarrow> (string \<times> string \<times> string \<times> string) option" where
  "firstOccurrence m d q a = find (\<lambda>(d', q', a', t). d' = d \<and> q' = q \<and> a' = a) (occurrences m)"

text \<open>The trimmed attribute names of a declaration.\<close>

definition attributeNames :: "jmxDefinitionParser \<Rightarrow> string set" where
  "attributeNames j = (\<Union>g\<in>set (Metrics j). TrimSpace ` set (Split (Attributes g) CHR '',''))"

text \<open>The first declaration of a domain that has a metric group.\<close>

definition firstContributor :: "mainDefinitionParser \<Rightarrow> string \<Rightarrow> jmxDefinitionParser option" where
  "firstContributor m d = find (\<lambda>j. Metrics j \<noteq> [] \<and> domainOf j = d) (JMX m)"

subsection \<open>Views of the reducer's maps\<close>

text \<open>
  The attribute entries of a map by domain, query and attribute, and the event types by
  domain; the entry that an occurrence makes; the event type that a declaration with a
  metric group asks for.
\<close>

definition attrView ::
  "(string \<rightharpoonup> domainReducer) \<Rightarrow> (string \<times> string \<times> string \<rightharpoonup> attributeReducer)" where
  "attrView dm = (\<lambda>(d, q, a). attrsAt dm (d, q) a)"

definition eventView :: "(string \<rightharpoonup> domainReducer) \<Rightarrow> (string \<rightharpoonup> panic + string)" where
  "eventView dm = (\<lambda>d. map_option (\<lambda>dr. Inr (EventType dr)) (dm d))"

definition newEntry :: "metricsDefinitionParser \<Rightarrow> string \<Rightarrow> attributeReducer" where
  "newEntry g raw = \<lparr>MetricType = convertMetricType (Type g), MetricName = TrimSpace raw\<rparr>"

definition entryOf ::
  "string \<times> string \<times> string \<times> string \<Rightarrow> (string \<times> string \<times> string) \<times> attributeReducer" where
  "entryOf = (\<lambda>(d, q, a, t). ((d, q, a), \<lparr>MetricType = convertMetricType t, MetricName = a\<rparr>))"

definition eventPairs :: "string \<Rightarrow> jmxDefinitionParser \<Rightarrow> (string \<times> (panic + string)) list" where
  "eventPairs mName j =
     (if Metrics j = [] then []
      else [(domainOf j, getEventName mName (RootMetricName j) (queryOf j))])"

text \<open>
  What the pointers of a pass point to: \<^verbatim>\<open>thisBean\<close>, when set, is the bean of this
  declaration's domain and query, which the map holds; \<^verbatim>\<open>thisDomain\<close>, when set
  alone, is this declaration's domain, which has no bean for the query yet; when both
  are \<^verbatim>\<open>nil\<close> the map has no such domain.
\<close>

definition ptrInv :: "jmxDefinitionParser \<Rightarrow> reduceState \<Rightarrow> bool" where
  "ptrInv j st \<longleftrightarrow>
     (case thisBean st of
        Some p \<Rightarrow> p = (domainOf j, queryOf j) \<and> CHR '':'' \<in> set (ObjectName j)
                  \<and> (\<exists>dr b. thisDomainMap st (domainOf j) = Some dr \<and> BeansMap dr (queryOf j) = Some b)
      | None \<Rightarrow>
          (case thisDomain st of
             Some d \<Rightarrow> d = domainOf j \<and> CHR '':'' \<in> set (ObjectName j)
                       \<and> (\<exists>dr. thisDomainMap st (domainOf j) = Some dr \<and> BeansMap dr (queryOf j) = None)
           | None \<Rightarrow> thisDomainMap st (domainOf j) = None))"

text \<open>What a result of the reducer holds for an attribute, and for a domain.\<close>

definition attributeOf ::
  "panic + (string \<rightharpoonup> domainReducer) \<Rightarrow> string \<Rightarrow> string \<Rightarrow> string \<Rightarrow> attributeReducer option" where
  "attributeOf r d q a = (case r of Inl e \<Rightarrow> None | Inr dm \<Rightarrow> attrsAt dm (d, q) a)"

definition eventTypeOf :: "panic + (string \<rightharpoonup> domainReducer) \<Rightarrow> string \<Rightarrow> string option" where
  "eventTypeOf r d = (case r of Inl e \<Rightarrow> None | Inr dm \<Rightarrow> map_option EventType (dm d))"

subsection \<open>Example definitions\<close>

text \<open>
  Two declarations of one domain and query: \<open>count\<close> as \<open>simple\<close>, then \<open>count\<close> and
  \<open>errors\<close> as \<open>monotonically_increasing\<close>, with white space around the names.
\<close>

definition scenarioTwoDeclarations :: mainDefinitionParser where
  "scenarioTwoDeclarations = \<lparr>Name = ''MyApp'', Enabled = True, JMX =
     [\<lparr>ObjectName = ''domain:type=Thing,name=A'', RootMetricName = '''',
        Metrics = [\<lparr>Attributes = ''count'', Type = ''simple''\<rparr>]\<rparr>,
      \<lparr>ObjectName = ''domain:type=Thing,name=A'', RootMetricName = ''Pool_{name}'',
        Metrics = [\<lparr>Attributes = ''count , errors  '', Type = ''monotonically_increasing''\<rparr>]\<rparr>]\<rparr>"

text \<open>A declaration without metrics, then one of the same domain with another template.\<close>

definition scenarioNoMetricsFirst :: mainDefinitionParser where
  "scenarioNoMetricsFirst = \<lparr>Name = ''MyApp'', Enabled = True, JMX =
     [\<lparr>ObjectName = ''d:k=v'', RootMetricName = ''A'', Metrics = []\<rparr>,
      \<lparr>ObjectName = ''d:k=v'', RootMetricName = ''B'',
        Metrics = [\<lparr>Attributes = ''x'', Type = ''simple''\<rparr>]\<rparr>]\<rparr>"

text \<open>An object name with two colons, a placeholder for the key of the query.\<close>

definition scenarioTwoColons :: mainDefinitionParser where
  "scenarioTwoColons = \<lparr>Name = ''MyApp'', Enabled = True, JMX =
     [\<lparr>ObjectName = ''d:k=v:x'', RootMetricName = ''{k}'',
        Metrics = [\<lparr>Attributes = ''count'', Type = ''simple''\<rparr>]\<rparr>]\<rparr>"

text \<open>An object name without colon.\<close>

definition scenarioNoColon :: mainDefinitionParser where
  "scenarioNoColon = \<lparr>Name = ''MyApp'', Enabled = True, JMX =
     [\<lparr>ObjectName = ''nocolon'', RootMetricName = '''',
        Metrics = [\<lparr>Attributes = ''x'', Type = ''simple''\<rparr>]\<rparr>]\<rparr>"

text \<open>An attribute string with two commas in a row, and the map the reducer makes of it.\<close>

definition scenarioEmptySegment :: mainDefinitionParser where
  "scenarioEmptySegment = \<lparr>Name = ''MyApp'', Enabled = True, JMX =
     [\<lparr>ObjectName = ''d:k=v'', RootMetricName = '''',
        Metrics = [\<lparr>Attributes = ''a,,b'', Type = ''simple''\<rparr>]\<rparr>]\<rparr>"

definition modelEmptySegment :: "string \<rightharpoonup> domainReducer" where
  "modelEmptySegment =
     [''d'' \<mapsto> \<lparr>EventType = ''MyApp'', BeansMap =
        [''k=v'' \<mapsto> \<lparr>AttributesMap =
           [''a'' \<mapsto> \<lparr>MetricType = ''gauge'', MetricName = ''a''\<rparr>,
            [] \<mapsto> \<lparr>MetricType = ''gauge'', MetricName = []\<rparr>,
            ''b'' \<mapsto> \<lparr>MetricType = ''gauge'', MetricName = ''b''\<rparr>]\<rparr>]\<rparr>]"

definition outputEmptySegment :: "domainOutput list" where
  "outputEmptySegment =
     [\<lparr>Domain_o = ''d'', EventType_o = ''MyApp'', Beans =
        [\<lparr>Query = ''k=v'', Attributes_o =
           [\<lparr>Attr = ''b'', MetricType_o = ''gauge'', MetricName_o = ''b''\<rparr>,
            \<lparr>Attr = [], MetricType_o = ''gauge'', MetricName_o = []\<rparr>,
            \<lparr>Attr = ''a'', MetricType_o = ''gauge'', MetricName_o = ''a''\<rparr>]\<rparr>]\<rparr>]"

text \<open>
  The map the reducer makes of \<open>scenarioTwoDeclarations\<close>, and two outputs of it that
  differ in the order of the attributes.
\<close>

definition modelTwoDeclarations :: "string \<rightharpoonup> domainReducer" where
  "modelTwoDeclarations =
     [''domain'' \<mapsto> \<lparr>EventType = ''MyApp'', BeansMap =
        [''type=Thing,name=A'' \<mapsto> \<lparr>AttributesMap =
           [''count'' \<mapsto> \<lparr>MetricType = ''gauge'', MetricName = ''count''\<rparr>,
            ''errors'' \<mapsto> \<lparr>MetricType = ''delta'', MetricName = ''errors''\<rparr>]\<rparr>]\<rparr>]"

definition outputCountFirst :: "domainOutput list" where
  "outputCountFirst =
     [\<lparr>Domain_o = ''domain'', EventType_o = ''MyApp'', Beans =
        [\<lparr>Query = ''type=Thing,name=A'', Attributes_o =
           [\<lparr>Attr = ''count'', MetricType_o = ''gauge'', MetricName_o = ''count''\<rparr>,
            \<lparr>Attr = ''errors'', MetricType_o = ''delta'', MetricName_o = ''errors''\<rparr>]\<rparr>]\<rparr>]"

definition outputErrorsFirst :: "domainOutput list" where
  "outputErrorsFirst =
     [\<lparr>Domain_o = ''domain'', EventType_o = ''MyApp'', Beans =
        [\<lparr>Query = ''type=Thing,name=A'', Attributes_o =
           [\<lparr>Attr = ''errors'', MetricType_o = ''delta'', MetricName_o = ''errors''\<rparr>,
            \<lparr>Attr = ''count'', MetricType_o = ''gauge'', MetricName_o = ''count''\<rparr>]\<rparr>]\<rparr>]"

text \<open>
  Three declarations of the domain \<open>d\<close> whose object names differ only after the second
  colon, and two such declarations with different attributes.
\<close>

definition scenarioSecondColonKinds :: mainDefinitionParser where
  "scenarioSecondColonKinds = \<lparr>Name = ''MyApp'', Enabled = True, JMX =
     [\<lparr>ObjectName = ''d:k=v:x'', RootMetricName = '''',
        Metrics = [\<lparr>Attributes = ''a'', Type = ''monotonically_increasing''\<rparr>]\<rparr>,
      \<lparr>ObjectName = ''d:k=v:y'', RootMetricName = '''',
        Metrics = [\<lparr>Attributes = ''a'', Type = ''simple''\<rparr>]\<rparr>,
      \<lparr>ObjectName = ''d:k=v:y'', RootMetricName = '''',
        Metrics = [\<lparr>Attributes = ''a'', Type = ''monotonically_increasing''\<rparr>]\<rparr>]\<rparr>"

definition scenarioSecondColonNames :: mainDefinitionParser where
  "scenarioSecondColonNames = \<lparr>Name = ''MyApp'', Enabled = True, JMX =
     [\<lparr>ObjectName = ''d:k=v:x'', RootMetricName = '''',
        Metrics = [\<lparr>Attributes = ''a'', Type = ''simple''\<rparr>]\<rparr>,
      \<lparr>ObjectName = ''d:k=v:y'', RootMetricName = '''',
        Metrics = [\<lparr>Attributes = ''b'', Type = ''simple''\<rparr>]\<rparr>]\<rparr>"

text \<open>
  Two declarations of the domain \<open>d\<close> with the query \<open>kv\<close>, which has no \<open>=\<close>: the
  resolver returns for the template of the first and would panic for a template with a
  placeholder.
\<close>

definition scenarioLaterTemplate :: mainDefinitionParser where
  "scenarioLaterTemplate = \<lparr>Name = ''MyApp'', Enabled = True, JMX =
     [\<lparr>ObjectName = ''d:kv'', RootMetricName = ''A'',
        Metrics = [\<lparr>Attributes = ''x'', Type = ''simple''\<rparr>]\<rparr>,
      \<lparr>ObjectName = ''d:kv'', RootMetricName = ''B'',
        Metrics = [\<lparr>Attributes = ''y'', Type = ''simple''\<rparr>]\<rparr>]\<rparr>"

subsection \<open>Attribute strings and outputs\<close>

text \<open>
  An attribute string that is empty, has two commas in a row or ends with a comma.
\<close>

definition hasEmptySegment :: "string \<Rightarrow> bool" where
  "hasEmptySegment s \<longleftrightarrow>
     s = [] \<or> (\<exists>pre post. s = pre @ '',,'' @ post) \<or> (s \<noteq> [] \<and> last s = CHR '','')"

text \<open>
  An output up to the order of its three levels of lists: the multiset of its domains,
  each with the multiset of its beans, each with the multiset of its attributes.
\<close>

definition canonicalBean :: "beanOutput \<Rightarrow> string \<times> attributeOutput multiset" where
  "canonicalBean b = (Query b, mset (Attributes_o b))"

definition canonicalDomain ::
  "domainOutput \<Rightarrow> string \<times> string \<times> (string \<times> attributeOutput multiset) multiset" where
  "canonicalDomain d = (Domain_o d, EventType_o d, image_mset canonicalBean (mset (Beans d)))"

definition canonical ::
  "domainOutput list \<Rightarrow> (string \<times> string \<times> (string \<times> attributeOutput multiset) multiset) multiset" where
  "canonical out = image_mset canonicalDomain (mset out)"

text \<open>A Go map has finitely many keys: so have the maps of a reducer's result, at each level.\<close>

definition finiteModel :: "(string \<rightharpoonup> domainReducer) \<Rightarrow> bool" where
  "finiteModel dm \<longleftrightarrow>
     finite (dom dm)
     \<and> (\<forall>d dr. dm d = Some dr \<longrightarrow>
           finite (dom (BeansMap dr))
           \<and> (\<forall>q b. BeansMap dr q = Some b \<longrightarrow> finite (dom (AttributesMap b))))"

section \<open>Lemmas\<close>

subsection \<open>Splitting\<close>

lemma Split_unfold:
  "Split s c = takeWhile (\<lambda>x. x \<noteq> c) s #
     (case dropWhile (\<lambda>x. x \<noteq> c) s of [] \<Rightarrow> [] | _ # r \<Rightarrow> Split r c)"
  by (induction s) (auto split: list.splits)

lemma Split_not_Nil [simp]: "Split s c \<noteq> []"
  by (subst Split_unfold) simp

lemma length_Split_pos [simp]: "0 < length (Split s c)"
  by (cases "Split s c") simp_all

lemma Split_no_sep: "c \<notin> set s \<Longrightarrow> Split s c = [s]"
  by (induction s) auto

lemma length_Split: "length (Split s c) = Suc (length (filter (\<lambda>x. x = c) s))"
  by (induction s) (auto split: list.splits)

lemma Split_sep_length: "c \<in> set s \<Longrightarrow> 2 \<le> length (Split s c)"
  by (simp add: length_Split filter_empty_conv Suc_le_eq)

lemma Split_length_sep: "2 \<le> length (Split s c) \<Longrightarrow> c \<in> set s"
  by (rule ccontr) (simp add: Split_no_sep)

lemma hd_Split: "hd (Split s c) = takeWhile (\<lambda>x. x \<noteq> c) s"
  by (subst Split_unfold) simp

lemma nth0_Split: "Split s c ! 0 = takeWhile (\<lambda>x. x \<noteq> c) s"
  by (subst Split_unfold) simp

lemma nth1_Split:
  "c \<in> set s \<Longrightarrow>
   Split s c ! 1 = takeWhile (\<lambda>x. x \<noteq> c) (drop 1 (dropWhile (\<lambda>x. x \<noteq> c) s))"
proof -
  assume "c \<in> set s"
  then obtain r where r: "dropWhile (\<lambda>x. x \<noteq> c) s = c # r"
    by (metis (mono_tags, lifting) dropWhile_eq_Nil_conv hd_dropWhile list.exhaust_sel)
  have "Split s c = takeWhile (\<lambda>x. x \<noteq> c) s # Split r c"
    by (subst Split_unfold) (simp add: r)
  then show ?thesis
    by (simp add: r nth0_Split)
qed

lemma goIndex_0_Split: "goIndex (Split s c) 0 = Inr (takeWhile (\<lambda>x. x \<noteq> c) s)"
  by (simp add: goIndex_def nth0_Split)

lemma goIndex_1_Split:
  "goIndex (Split s c) (Suc 0) =
     (if c \<in> set s then Inr (takeWhile (\<lambda>x. x \<noteq> c) (drop 1 (dropWhile (\<lambda>x. x \<noteq> c) s)))
      else Inl IndexOutOfRange)"
  using Split_sep_length [of c s] nth1_Split [of c s]
  by (auto simp: goIndex_def Split_no_sep)

subsection \<open>Placeholders\<close>

lemma not_word_rbrace: "\<not> isWordChar CHR ''}''"
  by (simp add: isWordChar_def)

lemma matchLen_placeholder:
  assumes "w \<noteq> []" "list_all isWordChar w"
  shows "matchLen (''{'' @ w @ ''}'' @ post) = length w + 2"
proof -
  have "takeWhile isWordChar (w @ CHR ''}'' # post) = w"
    using assms(2) by (simp add: list_all_iff not_word_rbrace)
  moreover have "dropWhile isWordChar (w @ CHR ''}'' # post) = CHR ''}'' # post"
    using assms(2) by (simp add: list_all_iff not_word_rbrace)
  ultimately show ?thesis
    using assms(1) by (simp add: matchLen_def)
qed

lemma matchLen_shape:
  assumes "matchLen s \<noteq> 0"
  shows "\<exists>w post. s = ''{'' @ w @ ''}'' @ post \<and> w \<noteq> [] \<and> list_all isWordChar w
           \<and> matchLen s = length w + 2"
proof -
  from assms obtain c cs where s: "s = c # cs"
    by (cases s) (auto simp: matchLen_def)
  let ?w = "takeWhile isWordChar cs"
  let ?d = "dropWhile isWordChar cs"
  from assms s have c: "c = CHR ''{''" and w: "?w \<noteq> []" and d: "take 1 ?d = ''}''"
    and n: "matchLen s = length ?w + 2"
    by (auto simp: matchLen_def split: if_splits)
  from d obtain post where post: "?d = CHR ''}'' # post"
    by (cases ?d) auto
  have "cs = ?w @ ?d" by simp
  with post have "cs = ?w @ ''}'' @ post" by simp
  moreover have "list_all isWordChar ?w"
    by (simp add: list_all_iff) (meson set_takeWhileD)
  ultimately show ?thesis using s c w n by auto
qed

lemma MatchString_hasPlaceholder: "MatchString t \<longleftrightarrow> hasPlaceholder t"
proof
  assume "MatchString t"
  then show "hasPlaceholder t"
  proof (induction t)
    case Nil
    then show ?case by simp
  next
    case (Cons c cs)
    show ?case
    proof (cases "matchLen (c # cs) = 0")
      case True
      with Cons have "hasPlaceholder cs" by simp
      then obtain pre w post where "cs = pre @ ''{'' @ w @ ''}'' @ post" "w \<noteq> []" "list_all isWordChar w"
        unfolding hasPlaceholder_def by blast
      then have "c # cs = (c # pre) @ ''{'' @ w @ ''}'' @ post \<and> w \<noteq> [] \<and> list_all isWordChar w"
        by simp
      then show ?thesis unfolding hasPlaceholder_def by blast
    next
      case False
      from matchLen_shape [OF this] obtain w post where
        "c # cs = [] @ ''{'' @ w @ ''}'' @ post \<and> w \<noteq> [] \<and> list_all isWordChar w"
        by auto
      then show ?thesis unfolding hasPlaceholder_def by blast
    qed
  qed
next
  assume "hasPlaceholder t"
  then obtain pre w post where t: "t = pre @ ''{'' @ w @ ''}'' @ post" and w: "w \<noteq> []" "list_all isWordChar w"
    unfolding hasPlaceholder_def by blast
  have "MatchString (pre @ ''{'' @ w @ ''}'' @ post)"
  proof (induction pre)
    case Nil
    have "matchLen (''{'' @ w @ ''}'' @ post) \<noteq> 0"
      using matchLen_placeholder [OF w, of post] by simp
    then show ?case by simp
  next
    case (Cons a pre)
    then show ?case by simp
  qed
  with t show "MatchString t" by simp
qed

lemma FindAllString_shape:
  "m \<in> set (FindAllString s) \<Longrightarrow> \<exists>w. m = ''{'' @ w @ ''}'' \<and> w \<noteq> [] \<and> list_all isWordChar w"
proof (induction s rule: FindAllString.induct)
  case 1
  then show ?case by simp
next
  case (2 c cs)
  show ?case
  proof (cases "matchLen (c # cs) = 0")
    case True
    with 2 show ?thesis by simp
  next
    case False
    from matchLen_shape [OF False] obtain w post where
      s: "c # cs = ''{'' @ w @ ''}'' @ post" and w: "w \<noteq> []" "list_all isWordChar w"
      and n: "matchLen (c # cs) = length w + 2"
      by blast
    have tk: "take (matchLen (c # cs)) (c # cs) = ''{'' @ w @ ''}''"
      unfolding n by (subst s) simp
    from 2 False consider "m = take (matchLen (c # cs)) (c # cs)"
      | "m \<in> set (FindAllString (drop (matchLen (c # cs) - 1) cs))"
      by auto
    then show ?thesis
    proof cases
      case 1
      with tk w show ?thesis by blast
    next
      case 2
      with "2.IH"(2) False show ?thesis by blast
    qed
  qed
qed

lemma goSlice_placeholder:
  "goSliceFromEnd (''{'' @ w @ ''}'') (Suc 0) (Suc 0) = Inr w"
  by (simp add: goSliceFromEnd_def)

lemma placeholderName_braces: "placeholderName (''{'' @ w @ ''}'') = w"
  by (simp add: placeholderName_def)

lemma substituteMatches_fold:
  assumes "\<forall>m\<in>set ms. \<exists>w. m = ''{'' @ w @ ''}''"
  shows "substituteMatches kv ms t = Inr (fold (substituteOne kv) ms t)"
  using assms
proof (induction ms arbitrary: t)
  case Nil
  then show ?case by simp
next
  case (Cons m ms)
  then obtain w where m: "m = ''{'' @ w @ ''}''" by auto
  have sl: "goSliceFromEnd m (Suc 0) (Suc 0) = Inr w" unfolding m by (rule goSlice_placeholder)
  have id: "placeholderName m = w" unfolding m by (rule placeholderName_braces)
  from Cons have IH: "\<And>t. substituteMatches kv ms t = Inr (fold (substituteOne kv) ms t)"
    by simp
  have one: "substituteOne kv m t = (case kv w of Some v \<Rightarrow> Replace t m v | None \<Rightarrow> t)"
    by (simp add: substituteOne_def id)
  show ?case
    by (cases "kv w") (simp_all add: sl IH one)
qed

subsection \<open>The query map\<close>

lemma buildQueryMap_panic:
  "p \<in> set ps \<Longrightarrow> CHR ''='' \<notin> set p \<Longrightarrow> buildQueryMap ps qm = Inl IndexOutOfRange"
proof (induction ps arbitrary: qm)
  case Nil
  then show ?case by simp
next
  case (Cons a ps)
  show ?case
  proof (cases "CHR ''='' \<in> set a")
    case True
    with Cons have "p \<in> set ps" by auto
    with Cons show ?thesis
      by (simp add: goIndex_0_Split goIndex_1_Split True)
  next
    case False
    then show ?thesis
      by (simp add: goIndex_0_Split goIndex_1_Split)
  qed
qed

lemma buildQueryMap_ok:
  "\<forall>p\<in>set ps. CHR ''='' \<in> set p \<Longrightarrow>
   buildQueryMap ps qm = Inr (qm ++ map_of (rev (map (\<lambda>p. (pairKey p, pairValue p)) ps)))"
proof (induction ps arbitrary: qm)
  case Nil
  then show ?case by simp
next
  case (Cons a ps)
  then have a: "CHR ''='' \<in> set a" and IH: "\<And>qm. buildQueryMap ps qm =
      Inr (qm ++ map_of (rev (map (\<lambda>p. (pairKey p, pairValue p)) ps)))"
    by auto
  have "(qm(pairKey a \<mapsto> pairValue a)) ++ map_of (rev (map (\<lambda>p. (pairKey p, pairValue p)) ps))
      = qm ++ map_of (rev (map (\<lambda>p. (pairKey p, pairValue p)) (a # ps)))"
    by (auto simp: fun_eq_iff map_add_def split: option.splits)
  then show ?case
    by (simp add: goIndex_0_Split goIndex_1_Split a IH pairKey_def pairValue_def)
qed

lemma FindAllString_no_match: "\<not> MatchString s \<Longrightarrow> FindAllString s = []"
  by (induction s) auto

lemma hasPlaceholder_not_Nil: "hasPlaceholder t \<Longrightarrow> t \<noteq> []"
  by (auto simp: hasPlaceholder_def)

lemma substituteMatches_found:
  "substituteMatches kv (FindAllString t) t' = Inr (fold (substituteOne kv) (FindAllString t) t')"
  by (rule substituteMatches_fold) (use FindAllString_shape in blast)

lemma fold_substituteOne_unresolved:
  "\<forall>ph\<in>set phs. kv (placeholderName ph) = None \<Longrightarrow> fold (substituteOne kv) phs t = t"
  by (induction phs arbitrary: t) (simp_all add: substituteOne_def)

subsection \<open>Evaluation\<close>

lemma TrimSpace_eval:
  "TrimSpace s = rev (trimRev (rev (TrimLeftSpace s)))"
  by (simp add: TrimSpace_def TrimRightSpace_def)

lemmas trim_defs = TrimSpace_eval leadingSpace_def trailingSpace_def asciiSpace_def
  unicodeSpace2_def unicodeSpace3_def

lemmas resolver_eval = getEventName_def matchLen_def isWordChar_def goIndex_def
  goSliceFromEnd_def makeInsightsCompliantEventType_def sep_def defaultEventType_def

lemmas spec_eval = substituteOne_def queryMapping_def pairKey_def pairValue_def
  placeholderName_def

subsection \<open>One attribute\<close>

lemma goIndex_dq_0: "goIndex (Split (ObjectName j) CHR '':'') 0 = Inr (domainOf j)"
  by (simp add: goIndex_0_Split domainOf_def)

lemma goIndex_dq_1:
  "goIndex (Split (ObjectName j) CHR '':'') (Suc 0) =
     (if CHR '':'' \<in> set (ObjectName j) then Inr (queryOf j) else Inl IndexOutOfRange)"
  by (simp add: goIndex_1_Split queryOf_def)

lemma attrView_setAttr:
  assumes "dm d = Some dr" "BeansMap dr q = Some b" "AttributesMap b a = None"
  shows "attrView (setAttr dm (d, q) a r) = [(d, q, a) \<mapsto> r] ++ attrView dm"
  using assms
  by (auto simp: attrView_def setAttr_def setBean_def attrsAt_def fun_eq_iff map_add_def
      split: option.splits)

lemma eventView_setAttr: "eventView (setAttr dm p a r) = eventView dm"
  by (auto simp: eventView_def setAttr_def setBean_def fun_eq_iff split: option.splits)

lemma attrView_setBean:
  assumes "dm d = Some dr" "BeansMap dr q = None"
  shows "attrView (setBean dm d q \<lparr>AttributesMap = [a \<mapsto> r]\<rparr>) = [(d, q, a) \<mapsto> r] ++ attrView dm"
  using assms
  by (auto simp: attrView_def setBean_def attrsAt_def fun_eq_iff map_add_def
      split: option.splits)

lemma eventView_setBean: "eventView (setBean dm d q b) = eventView dm"
  by (auto simp: eventView_def setBean_def fun_eq_iff split: option.splits)

lemma attrView_new_domain:
  assumes "dm d = None"
  shows "attrView (dm(d \<mapsto> \<lparr>EventType = e, BeansMap = [q \<mapsto> \<lparr>AttributesMap = [a \<mapsto> r]\<rparr>]\<rparr>))
           = [(d, q, a) \<mapsto> r] ++ attrView dm"
  using assms
  by (auto simp: attrView_def attrsAt_def fun_eq_iff map_add_def split: option.splits)

lemma eventView_new_domain:
  assumes "dm d = None"
  shows "eventView (dm(d \<mapsto> \<lparr>EventType = e, BeansMap = bm\<rparr>)) = [d \<mapsto> Inr e] ++ eventView dm"
  using assms
  by (auto simp: eventView_def fun_eq_iff map_add_def split: option.splits)

lemma eventView_existing:
  "dm d = Some dr \<Longrightarrow> [d \<mapsto> x] ++ eventView dm = eventView dm"
  by (auto simp: eventView_def fun_eq_iff map_add_def split: option.splits)

lemma attrView_existing:
  "attrView dm k = Some r \<Longrightarrow> [k \<mapsto> x] ++ attrView dm = attrView dm"
  by (auto simp: fun_eq_iff map_add_def split: option.splits)

lemma attrStep_effect:
  assumes inv: "ptrInv j st"
    and step: "attrStep mName j (Split (ObjectName j) CHR '':'') g st raw = Inr st'"
  shows "ptrInv j st' \<and> thisBean st' \<noteq> None
       \<and> attrView (thisDomainMap st') =
           [(domainOf j, queryOf j, TrimSpace raw) \<mapsto> newEntry g raw] ++ attrView (thisDomainMap st)
       \<and> eventView (thisDomainMap st') =
           [domainOf j \<mapsto> getEventName mName (RootMetricName j) (queryOf j)]
             ++ eventView (thisDomainMap st)"
proof (cases "thisBean st")
  case (Some p)
  with inv obtain dr b where p: "p = (domainOf j, queryOf j)"
    and dr: "thisDomainMap st (domainOf j) = Some dr" and b: "BeansMap dr (queryOf j) = Some b"
    and colon: "CHR '':'' \<in> set (ObjectName j)"
    by (auto simp: ptrInv_def)
  have at: "attrsAt (thisDomainMap st) p = AttributesMap b"
    by (simp add: attrsAt_def p dr b)
  show ?thesis
  proof (cases "AttributesMap b (TrimSpace raw)")
    case None
    with step Some at have st': "st' = st\<lparr>thisDomainMap :=
        setAttr (thisDomainMap st) p (TrimSpace raw) (newEntry g raw)\<rparr>"
      by (auto simp: attrStep_def newEntry_def Let_def)
    have inv': "ptrInv j st'"
      using Some p dr b colon
      by (auto simp: st' ptrInv_def setAttr_def setBean_def)
    show ?thesis
      using inv' Some
      by (simp add: st' p eventView_setAttr
          attrView_setAttr [of "thisDomainMap st" "domainOf j" dr "queryOf j" b, OF dr b None]
          eventView_existing [of "thisDomainMap st" "domainOf j" dr, OF dr])
  next
    case (Some r)
    with step \<open>thisBean st = Some p\<close> at have st': "st' = st"
      by (simp add: attrStep_def Let_def)
    have "attrView (thisDomainMap st) (domainOf j, queryOf j, TrimSpace raw) = Some r"
      by (simp add: attrView_def attrsAt_def dr b Some)
    then show ?thesis
      using inv \<open>thisBean st = Some p\<close>
      by (simp add: st' attrView_existing
          eventView_existing [of "thisDomainMap st" "domainOf j" dr, OF dr])
  qed
next
  case None
  note nb = None
  show ?thesis
  proof (cases "thisDomain st")
    case None
    with inv nb have nd: "thisDomainMap st (domainOf j) = None"
      by (simp add: ptrInv_def)
    from step nb None obtain e where colon: "CHR '':'' \<in> set (ObjectName j)"
      and e: "getEventName mName (RootMetricName j) (queryOf j) = Inr e"
      and st': "st' = st\<lparr>thisDomainMap := (thisDomainMap st)
                 (domainOf j \<mapsto> \<lparr>EventType = e,
                     BeansMap = [queryOf j \<mapsto> \<lparr>AttributesMap = [TrimSpace raw \<mapsto> newEntry g raw]\<rparr>]\<rparr>),
               thisBean := Some (domainOf j, queryOf j)\<rparr>"
      by (auto simp: attrStep_def goIndex_dq_0 goIndex_dq_1 newEntry_def Let_def
          split: if_splits sum.splits)
    have inv': "ptrInv j st'"
      using colon by (simp add: st' ptrInv_def)
    show ?thesis
      using inv'
      by (simp add: st' e attrView_new_domain [of "thisDomainMap st" "domainOf j", OF nd]
          eventView_new_domain [of "thisDomainMap st" "domainOf j", OF nd])
  next
    case (Some d)
    with inv nb obtain dr where d: "d = domainOf j" and colon: "CHR '':'' \<in> set (ObjectName j)"
      and dr: "thisDomainMap st (domainOf j) = Some dr" and b: "BeansMap dr (queryOf j) = None"
      by (auto simp: ptrInv_def)
    from step nb Some have st': "st' = st\<lparr>thisDomainMap :=
          setBean (thisDomainMap st) (domainOf j) (queryOf j)
            \<lparr>AttributesMap = [TrimSpace raw \<mapsto> newEntry g raw]\<rparr>,
        thisBean := Some (domainOf j, queryOf j)\<rparr>"
      by (auto simp: attrStep_def goIndex_dq_1 colon d newEntry_def Let_def)
    have inv': "ptrInv j st'"
      using colon dr by (simp add: st' ptrInv_def setBean_def)
    show ?thesis
      using inv'
      by (simp add: st' eventView_setBean
          attrView_setBean [of "thisDomainMap st" "domainOf j" dr "queryOf j", OF dr b]
          eventView_existing [of "thisDomainMap st" "domainOf j" dr, OF dr])
  qed
qed

subsection \<open>The loops of the reducer\<close>

lemma entryOf_occ:
  "entryOf (domainOf j, queryOf j, TrimSpace raw, Type g)
     = ((domainOf j, queryOf j, TrimSpace raw), newEntry g raw)"
  by (simp add: entryOf_def newEntry_def)

lemma map_add_single_idem: "[k \<mapsto> x] ++ ([k \<mapsto> x] ++ m) = [k \<mapsto> x] ++ m"
  by (auto simp: fun_eq_iff map_add_def split: option.splits)

lemma map_of_Cons_add: "map_of ps ++ ([k \<mapsto> v] ++ m) = map_of ((k, v) # ps) ++ m"
  by (auto simp: fun_eq_iff map_add_def split: option.splits)

lemma map_of_append_add: "map_of ys ++ (map_of xs ++ m) = map_of (xs @ ys) ++ m"
  by (simp add: map_add_assoc)

lemma attrLoop_effect:
  assumes "ptrInv j st"
    and "attrLoop mName j (Split (ObjectName j) CHR '':'') g st raws = Inr st'"
  shows "ptrInv j st'
       \<and> attrView (thisDomainMap st') =
           map_of (map (\<lambda>raw. entryOf (domainOf j, queryOf j, TrimSpace raw, Type g)) raws)
             ++ attrView (thisDomainMap st)
       \<and> eventView (thisDomainMap st') =
           (if raws = [] then Map.empty
            else [domainOf j \<mapsto> getEventName mName (RootMetricName j) (queryOf j)])
             ++ eventView (thisDomainMap st)"
  using assms
proof (induction raws arbitrary: st)
  case Nil
  then show ?case by simp
next
  case (Cons raw raws)
  from Cons.prems(2) obtain st1 where
    s1: "attrStep mName j (Split (ObjectName j) CHR '':'') g st raw = Inr st1"
    and s2: "attrLoop mName j (Split (ObjectName j) CHR '':'') g st1 raws = Inr st'"
    by (auto split: sum.splits)
  note e1 = attrStep_effect [OF Cons.prems(1) s1]
  from e1 have inv1: "ptrInv j st1" by simp
  from e1 have a1: "attrView (thisDomainMap st1) =
      [(domainOf j, queryOf j, TrimSpace raw) \<mapsto> newEntry g raw] ++ attrView (thisDomainMap st)"
    and v1: "eventView (thisDomainMap st1) =
      [domainOf j \<mapsto> getEventName mName (RootMetricName j) (queryOf j)]
        ++ eventView (thisDomainMap st)"
    by simp_all
  note e2 = Cons.IH [OF inv1 s2]
  from e2 have inv2: "ptrInv j st'" by simp
  from e2 have a2: "attrView (thisDomainMap st') =
      map_of (map (\<lambda>raw. entryOf (domainOf j, queryOf j, TrimSpace raw, Type g)) raws)
        ++ attrView (thisDomainMap st1)"
    and v2: "eventView (thisDomainMap st') =
      (if raws = [] then Map.empty
       else [domainOf j \<mapsto> getEventName mName (RootMetricName j) (queryOf j)])
        ++ eventView (thisDomainMap st1)"
    by simp_all
  have av: "attrView (thisDomainMap st') =
      map_of (map (\<lambda>raw. entryOf (domainOf j, queryOf j, TrimSpace raw, Type g)) (raw # raws))
        ++ attrView (thisDomainMap st)"
    unfolding a2 a1 by (simp only: list.map entryOf_occ map_of_Cons_add)
  have ev: "eventView (thisDomainMap st') =
      [domainOf j \<mapsto> getEventName mName (RootMetricName j) (queryOf j)]
        ++ eventView (thisDomainMap st)"
    unfolding v2 v1 by (cases "raws = []") (simp_all only: simp_thms if_True if_False empty_map_add map_add_single_idem)
  show ?case using inv2 av ev by (simp only: list.distinct if_False simp_thms)
qed

lemma metricLoop_effect:
  assumes "ptrInv j st"
    and "metricLoop mName j (Split (ObjectName j) CHR '':'') st gs = Inr st'"
  shows "ptrInv j st'
       \<and> attrView (thisDomainMap st') =
           map_of (map entryOf (concat (map (metricOccurrences j) gs)))
             ++ attrView (thisDomainMap st)
       \<and> eventView (thisDomainMap st') =
           (if gs = [] then Map.empty
            else [domainOf j \<mapsto> getEventName mName (RootMetricName j) (queryOf j)])
             ++ eventView (thisDomainMap st)"
  using assms
proof (induction gs arbitrary: st)
  case Nil
  then show ?case by simp
next
  case (Cons g gs)
  from Cons.prems(2) obtain st1 where
    s1: "attrLoop mName j (Split (ObjectName j) CHR '':'') g st (Split (Attributes g) CHR '','') = Inr st1"
    and s2: "metricLoop mName j (Split (ObjectName j) CHR '':'') st1 gs = Inr st'"
    by (auto split: sum.splits)
  note e1 = attrLoop_effect [OF Cons.prems(1) s1]
  from e1 have inv1: "ptrInv j st1" by simp
  from e1 have a1: "attrView (thisDomainMap st1) =
      map_of (map entryOf (metricOccurrences j g)) ++ attrView (thisDomainMap st)"
    and v1: "eventView (thisDomainMap st1) =
      [domainOf j \<mapsto> getEventName mName (RootMetricName j) (queryOf j)]
        ++ eventView (thisDomainMap st)"
    by (simp_all add: metricOccurrences_def comp_def)
  note e2 = Cons.IH [OF inv1 s2]
  from e2 have inv2: "ptrInv j st'" by simp
  from e2 have a2: "attrView (thisDomainMap st') =
      map_of (map entryOf (concat (map (metricOccurrences j) gs))) ++ attrView (thisDomainMap st1)"
    and v2: "eventView (thisDomainMap st') =
      (if gs = [] then Map.empty
       else [domainOf j \<mapsto> getEventName mName (RootMetricName j) (queryOf j)])
        ++ eventView (thisDomainMap st1)"
    by simp_all
  have av: "attrView (thisDomainMap st') =
      map_of (map entryOf (concat (map (metricOccurrences j) (g # gs))))
        ++ attrView (thisDomainMap st)"
    unfolding a2 a1 by (simp only: list.map concat.simps map_append map_of_append_add)
  have ev: "eventView (thisDomainMap st') =
      [domainOf j \<mapsto> getEventName mName (RootMetricName j) (queryOf j)]
        ++ eventView (thisDomainMap st)"
    unfolding v2 v1 by (cases "gs = []") (simp_all only: simp_thms if_True if_False empty_map_add map_add_single_idem)
  show ?case using inv2 av ev by (simp only: list.distinct if_False simp_thms)
qed

lemma reduceObject_effect:
  assumes "reduceObject mName dm j = Inr dm'"
  shows "attrView dm' = map_of (map entryOf (declOccurrences j)) ++ attrView dm
       \<and> eventView dm' = map_of (eventPairs mName j) ++ eventView dm"
proof -
  from assms obtain st st' where
    st: "(case dm (domainOf j) of
            None \<Rightarrow> Inr \<lparr>thisDomainMap = dm, thisDomain = None, thisBean = None\<rparr>
          | Some dr \<Rightarrow>
              (case goIndex (Split (ObjectName j) CHR '':'') 1 of
                 Inl e \<Rightarrow> Inl e
               | Inr q \<Rightarrow>
                   Inr \<lparr>thisDomainMap = dm, thisDomain = Some (domainOf j),
                        thisBean = (if BeansMap dr q \<noteq> None then Some (domainOf j, q) else None)\<rparr>)) = Inr st"
    and ml: "metricLoop mName j (Split (ObjectName j) CHR '':'') st (Metrics j) = Inr st'"
    and dm': "dm' = thisDomainMap st'"
    by (auto simp: reduceObject_def goIndex_dq_0 Let_def split: sum.splits)
  have inv: "ptrInv j st" and dm0: "thisDomainMap st = dm"
    using st by (auto simp: ptrInv_def goIndex_dq_1 split: option.splits if_splits)
  from metricLoop_effect [OF inv ml] show ?thesis
    unfolding dm' dm0 declOccurrences_def eventPairs_def
    by (cases "Metrics j = []") simp_all
qed

lemma reduceLoop_effect:
  "reduceLoop mName dm js = Inr dm' \<Longrightarrow>
   attrView dm' = map_of (map entryOf (concat (map declOccurrences js))) ++ attrView dm
   \<and> eventView dm' = map_of (concat (map (eventPairs mName) js)) ++ eventView dm"
proof (induction js arbitrary: dm)
  case Nil
  then show ?case by simp
next
  case (Cons j js)
  from Cons.prems obtain dm1 where s1: "reduceObject mName dm j = Inr dm1"
    and s2: "reduceLoop mName dm1 js = Inr dm'"
    by (auto split: sum.splits)
  from reduceObject_effect [OF s1] have a1: "attrView dm1 = map_of (map entryOf (declOccurrences j)) ++ attrView dm"
    and v1: "eventView dm1 = map_of (eventPairs mName j) ++ eventView dm"
    by simp_all
  from Cons.IH [OF s2] have a2: "attrView dm' = map_of (map entryOf (concat (map declOccurrences js))) ++ attrView dm1"
    and v2: "eventView dm' = map_of (concat (map (eventPairs mName) js)) ++ eventView dm1"
    by simp_all
  show ?case
    unfolding a2 a1 v2 v1 by (simp only: list.map concat.simps map_append map_of_append_add simp_thms)
qed

lemma attrView_empty: "attrView Map.empty = Map.empty"
  by (simp add: attrView_def attrsAt_def fun_eq_iff)

lemma eventView_empty: "eventView Map.empty = Map.empty"
  by (simp add: eventView_def fun_eq_iff)

lemma reduce_views:
  assumes "reduceJavaAgentYaml m = Inr dm"
  shows "attrView dm = map_of (map entryOf (occurrences m))"
    and "eventView dm = map_of (concat (map (eventPairs (Name m)) (JMX m)))"
  using reduceLoop_effect [of "Name m" Map.empty "JMX m" dm] assms
  by (simp_all add: reduceJavaAgentYaml_def attrView_empty eventView_empty occurrences_def)

subsection \<open>First occurrences\<close>

lemma map_of_entryOf_find:
  "map_of (map entryOf occs) (d, q, a) =
     (case find (\<lambda>(d', q', a', t). d' = d \<and> q' = q \<and> a' = a) occs of
        None \<Rightarrow> None
      | Some (d', q', a', t) \<Rightarrow> Some \<lparr>MetricType = convertMetricType t, MetricName = a\<rparr>)"
  by (induction occs) (auto simp: entryOf_def)

lemma map_of_eventPairs_find:
  "map_of (concat (map (eventPairs mName) js)) d =
     map_option (\<lambda>j. getEventName mName (RootMetricName j) (queryOf j))
       (find (\<lambda>j. Metrics j \<noteq> [] \<and> domainOf j = d) js)"
  by (induction js) (auto simp: eventPairs_def)

lemma attrView_apply: "attrView dm (d, q, a) = attrsAt dm (d, q) a"
  by (simp add: attrView_def)

lemma occurrence_keys:
  "(d, q, a) \<in> fst ` set (map entryOf (occurrences m)) \<longleftrightarrow>
     (\<exists>j\<in>set (JMX m). domainOf j = d \<and> queryOf j = q \<and> a \<in> attributeNames j)"
  by (auto simp: occurrences_def declOccurrences_def metricOccurrences_def entryOf_def
      attributeNames_def image_iff)

lemma not_isl_Inr: "\<not> isl r \<Longrightarrow> \<exists>x. r = Inr x"
  by (cases r) simp_all

subsection \<open>Object names without colon\<close>

lemma reduceLoop_append:
  "reduceLoop mName dm (xs @ ys) =
     (case reduceLoop mName dm xs of Inl e \<Rightarrow> Inl e | Inr dm' \<Rightarrow> reduceLoop mName dm' ys)"
  by (induction xs arbitrary: dm) (auto split: sum.splits)

lemma domainOf_no_colon: "CHR '':'' \<notin> set (ObjectName j) \<Longrightarrow> domainOf j = ObjectName j"
  by (simp add: domainOf_def takeWhile_eq_all_conv) blast

lemma attrStep_no_colon:
  assumes "CHR '':'' \<notin> set (ObjectName j)" "thisBean st = None" "thisDomain st = None"
  shows "attrStep mName j (Split (ObjectName j) CHR '':'') g st raw = Inl IndexOutOfRange"
  using assms by (simp add: attrStep_def goIndex_dq_1 Let_def)

lemma metricLoop_no_colon:
  assumes "CHR '':'' \<notin> set (ObjectName j)" "thisBean st = None" "thisDomain st = None"
    and "gs \<noteq> []"
  shows "metricLoop mName j (Split (ObjectName j) CHR '':'') st gs = Inl IndexOutOfRange"
proof -
  from assms(4) obtain g gs' where gs: "gs = g # gs'" by (cases gs) auto
  obtain raw raws where sp: "Split (Attributes g) CHR '','' = raw # raws"
    by (cases "Split (Attributes g) CHR '',''") simp_all
  show ?thesis
    by (simp add: gs sp attrStep_no_colon [OF assms(1-3)])
qed

lemma reduceObject_no_colon:
  assumes "CHR '':'' \<notin> set (ObjectName j)"
    and "Metrics j \<noteq> [] \<or> dm (ObjectName j) \<noteq> None"
  shows "reduceObject mName dm j = Inl IndexOutOfRange"
proof (cases "dm (ObjectName j)")
  case None
  with assms(2) have "Metrics j \<noteq> []" by simp
  then have "metricLoop mName j (Split (ObjectName j) CHR '':'')
      \<lparr>thisDomainMap = dm, thisDomain = None, thisBean = None\<rparr> (Metrics j) = Inl IndexOutOfRange"
    using assms(1) by (intro metricLoop_no_colon) simp_all
  then show ?thesis
    using None domainOf_no_colon [OF assms(1)]
    by (simp add: reduceObject_def goIndex_dq_0 Let_def)
next
  case (Some dr)
  then show ?thesis
    using domainOf_no_colon [OF assms(1)] assms(1)
    by (simp add: reduceObject_def goIndex_dq_0 goIndex_dq_1 Let_def)
qed

subsection \<open>Keys of the result\<close>

lemma attrsAt_SomeD:
  "attrsAt dm (d, q) a = Some r \<Longrightarrow>
   \<exists>dr b. dm d = Some dr \<and> BeansMap dr q = Some b \<and> AttributesMap b a = Some r"
  by (auto simp: attrsAt_def split: option.splits)

lemma reduce_has_attribute:
  assumes "reduceJavaAgentYaml m = Inr dm" "j \<in> set (JMX m)" "a \<in> attributeNames j"
  shows "\<exists>r. attrsAt dm (domainOf j, queryOf j) a = Some r \<and> MetricName r = a"
proof -
  have "(domainOf j, queryOf j, a) \<in> fst ` set (map entryOf (occurrences m))"
    using assms(2,3) by (simp only: occurrence_keys) blast
  then have "attrView dm (domainOf j, queryOf j, a) \<noteq> None"
    unfolding reduce_views(1) [OF assms(1)] by (simp only: map_of_eq_None_iff simp_thms)
  then obtain r where r: "attrView dm (domainOf j, queryOf j, a) = Some r" by blast
  then have "(( domainOf j, queryOf j, a), r) \<in> set (map entryOf (occurrences m))"
    unfolding reduce_views(1) [OF assms(1)] by (rule map_of_SomeD)
  then have "MetricName r = a" by (auto simp: entryOf_def)
  with r show ?thesis by (simp add: attrView_apply)
qed

lemma attributeNames_not_empty: "Metrics j \<noteq> [] \<Longrightarrow> attributeNames j \<noteq> {}"
proof -
  assume "Metrics j \<noteq> []"
  then obtain g where g: "g \<in> set (Metrics j)" by (cases "Metrics j") auto
  obtain raw where "raw \<in> set (Split (Attributes g) CHR '','')"
    by (cases "Split (Attributes g) CHR '',''") auto
  with g show ?thesis by (auto simp: attributeNames_def)
qed

lemma reduce_needs_colon:
  assumes "reduceJavaAgentYaml m = Inr dm" "j \<in> set (JMX m)" "Metrics j \<noteq> []"
  shows "CHR '':'' \<in> set (ObjectName j)"
proof (rule ccontr)
  assume nc: "CHR '':'' \<notin> set (ObjectName j)"
  from assms(2) obtain pre post where sp: "JMX m = pre @ j # post"
    by (auto simp: in_set_conv_decomp)
  show False
  proof (cases "reduceLoop (Name m) Map.empty pre")
    case (Inl e)
    with assms(1) show False
      by (simp add: reduceJavaAgentYaml_def sp reduceLoop_append)
  next
    case (Inr dm1)
    from reduceObject_no_colon [where j = j and dm = dm1 and mName = "Name m", OF nc] assms(3)
    have "reduceObject (Name m) dm1 j = Inl IndexOutOfRange" by simp
    with assms(1) Inr show False
      by (simp add: reduceJavaAgentYaml_def sp reduceLoop_append)
  qed
qed

lemmas reduce_eval = reduceJavaAgentYaml_def reduceObject_def attrStep_def attrsAt_def
  setAttr_def setBean_def Let_def convertMetricType_def

subsection \<open>Empty attribute names\<close>

lemma Split_tl_Cons: "[] \<in> set (tl (Split s c)) \<Longrightarrow> [] \<in> set (tl (Split (x # s) c))"
  by (cases "Split s c") (auto dest: list.set_sel(2) [rotated])

lemma Split_two_separators: "[] \<in> set (tl (Split (pre @ c # c # post) c))"
  by (induction pre) (simp_all add: Split_tl_Cons del: Split.simps, simp)

lemma Split_last_separator: "[] \<in> set (tl (Split (pre @ [c]) c))"
  by (induction pre) (simp_all add: Split_tl_Cons del: Split.simps, simp)

lemma hasEmptySegment_Split:
  assumes "hasEmptySegment s"
  shows "[] \<in> set (Split s CHR '','')"
proof -
  consider "s = []" | pre post where "s = pre @ '',,'' @ post" | "s \<noteq> []" "last s = CHR '',''"
    using assms unfolding hasEmptySegment_def by blast
  then show ?thesis
  proof cases
    case 1
    then show ?thesis by simp
  next
    case 2
    have "[] \<in> set (tl (Split (pre @ CHR '','' # CHR '','' # post) CHR '',''))"
      by (rule Split_two_separators)
    then have "[] \<in> set (Split (pre @ CHR '','' # CHR '','' # post) CHR '','')"
      by (rule list.set_sel(2) [rotated]) simp
    with 2 show ?thesis by simp
  next
    case 3
    then have s: "s = butlast s @ [CHR '','']"
      by (metis append_butlast_last_id)
    have "[] \<in> set (tl (Split (butlast s @ [CHR '','']) CHR '',''))"
      by (rule Split_last_separator)
    then have "[] \<in> set (Split (butlast s @ [CHR '','']) CHR '','')"
      by (rule list.set_sel(2) [rotated]) simp
    with s show ?thesis by simp
  qed
qed

lemma TrimSpace_Nil: "TrimSpace [] = []"
  by (simp add: TrimSpace_def TrimRightSpace_def)

lemma empty_attribute_name:
  assumes "g \<in> set (Metrics j)" "hasEmptySegment (Attributes g)"
  shows "[] \<in> attributeNames j"
proof -
  have "TrimSpace [] \<in> TrimSpace ` set (Split (Attributes g) CHR '','')"
    using hasEmptySegment_Split [OF assms(2)] by (rule imageI)
  with assms(1) show ?thesis
    by (auto simp: attributeNames_def TrimSpace_Nil)
qed

subsection \<open>What an output contains\<close>

lemma list_all2_in_left:
  "list_all2 P xs ys \<Longrightarrow> x \<in> set xs \<Longrightarrow> \<exists>y\<in>set ys. P x y"
  by (induction rule: list_all2_induct) auto

lemma rangeMap_member: "rangeMap m kvs \<Longrightarrow> m k = Some v \<Longrightarrow> (k, v) \<in> set kvs"
  by (auto simp: rangeMap_def dest: map_of_SomeD)

lemma buildAttributes_has:
  assumes "buildAttributes b out" "AttributesMap b a = Some r"
  shows "\<lparr>Attr = a, MetricType_o = MetricType r, MetricName_o = MetricName r\<rparr> \<in> set out"
  using assms(1)
proof cases
  case (1 kvs)
  from rangeMap_member [OF 1(2) assms(2)] show ?thesis
    unfolding 1(1) by force
qed

lemma buildBeans_has:
  assumes "buildBeans dr beans" "BeansMap dr q = Some b"
  shows "\<exists>out\<in>set beans. Query out = q \<and> buildAttributes b (Attributes_o out)"
  using assms(1)
proof cases
  case (1 kvs)
  from list_all2_in_left [OF 1(2) rangeMap_member [OF 1(1) assms(2)]] show ?thesis
    by simp
qed

lemma buildCollectionDefinition_has:
  assumes "buildCollectionDefinition dm domains" "dm d = Some dr"
  shows "\<exists>out\<in>set domains. Domain_o out = d \<and> EventType_o out = EventType dr
           \<and> buildBeans dr (Beans out)"
  using assms(1)
proof cases
  case (1 kvs)
  from list_all2_in_left [OF 1(2) rangeMap_member [OF 1(1) assms(2)]] show ?thesis
    by simp
qed

lemma emitted_attribute:
  assumes "buildCollectionDefinition dm domains"
    and "dm d = Some dr" "BeansMap dr q = Some b" "AttributesMap b a = Some r"
  shows "\<exists>dout\<in>set domains. Domain_o dout = d \<and>
           (\<exists>bout\<in>set (Beans dout). Query bout = q \<and>
              (\<exists>aout\<in>set (Attributes_o bout). Attr aout = a \<and> MetricName_o aout = MetricName r))"
proof -
  from buildCollectionDefinition_has [OF assms(1,2)] obtain dout where
    dout: "dout \<in> set domains" "Domain_o dout = d" "buildBeans dr (Beans dout)" by blast
  from buildBeans_has [OF dout(3) assms(3)] obtain bout where
    bout: "bout \<in> set (Beans dout)" "Query bout = q" "buildAttributes b (Attributes_o bout)" by blast
  from buildAttributes_has [OF bout(3) assms(4)]
  have "\<exists>aout\<in>set (Attributes_o bout). Attr aout = a \<and> MetricName_o aout = MetricName r"
    by (rule rev_bexI) simp
  with dout(1,2) bout(1,2) show ?thesis by blast
qed

subsection \<open>Outputs of the examples\<close>

lemma buildAttributesI:
  "rangeMap (AttributesMap b) kvs \<Longrightarrow>
   out = map (\<lambda>(a, r). \<lparr>Attr = a, MetricType_o = MetricType r, MetricName_o = MetricName r\<rparr>) kvs \<Longrightarrow>
   buildAttributes b out"
  by (simp add: buildAttributes.intros)

lemma buildBeans_single:
  assumes "BeansMap dr = [q \<mapsto> b]" "buildAttributes b attrs"
  shows "buildBeans dr [\<lparr>Query = q, Attributes_o = attrs\<rparr>]"
proof (rule buildBeans.intros)
  show "rangeMap (BeansMap dr) [(q, b)]" by (simp add: rangeMap_def assms(1))
  show "list_all2 (\<lambda>(bean, beanContents) out.
          Query out = bean \<and> buildAttributes beanContents (Attributes_o out))
        [(q, b)] [\<lparr>Query = q, Attributes_o = attrs\<rparr>]"
    using assms(2) by simp
qed

lemma buildCollectionDefinition_single:
  assumes "dm = [d \<mapsto> dr]" "buildBeans dr beans"
  shows "buildCollectionDefinition dm [\<lparr>Domain_o = d, EventType_o = EventType dr, Beans = beans\<rparr>]"
proof (rule buildCollectionDefinition.intros)
  show "rangeMap dm [(d, dr)]" by (simp add: rangeMap_def assms(1))
  show "list_all2 (\<lambda>(domain, domainContents) out.
          Domain_o out = domain \<and> EventType_o out = EventType domainContents
          \<and> buildBeans domainContents (Beans out))
        [(d, dr)] [\<lparr>Domain_o = d, EventType_o = EventType dr, Beans = beans\<rparr>]"
    using assms(2) by simp
qed

lemma reduce_scenarioEmptySegment:
  "reduceJavaAgentYaml scenarioEmptySegment = Inr modelEmptySegment"
  by (simp add: scenarioEmptySegment_def modelEmptySegment_def reduce_eval resolver_eval trim_defs)

lemma build_outputEmptySegment:
  "buildCollectionDefinition modelEmptySegment outputEmptySegment"
proof -
  let ?am = "[''a'' \<mapsto> \<lparr>MetricType = ''gauge'', MetricName = ''a''\<rparr>,
              [] \<mapsto> \<lparr>MetricType = ''gauge'', MetricName = []\<rparr>,
              ''b'' \<mapsto> \<lparr>MetricType = ''gauge'', MetricName = ''b''\<rparr>]"
  let ?attrs = "[\<lparr>Attr = ''b'', MetricType_o = ''gauge'', MetricName_o = ''b''\<rparr>,
                 \<lparr>Attr = [], MetricType_o = ''gauge'', MetricName_o = []\<rparr>,
                 \<lparr>Attr = ''a'', MetricType_o = ''gauge'', MetricName_o = ''a''\<rparr>]"
  let ?kvs = "[(''b'', \<lparr>MetricType = ''gauge'', MetricName = ''b''\<rparr>),
               ([], \<lparr>MetricType = ''gauge'', MetricName = []\<rparr>),
               (''a'', \<lparr>MetricType = ''gauge'', MetricName = ''a''\<rparr>)]"
  have "rangeMap ?am ?kvs"
    by (auto simp: rangeMap_def fun_eq_iff)
  then have a: "buildAttributes \<lparr>AttributesMap = ?am\<rparr> ?attrs"
    by (intro buildAttributesI [where kvs = ?kvs]) simp_all
  have b: "buildBeans \<lparr>EventType = ''MyApp'', BeansMap = [''k=v'' \<mapsto> \<lparr>AttributesMap = ?am\<rparr>]\<rparr>
             [\<lparr>Query = ''k=v'', Attributes_o = ?attrs\<rparr>]"
    by (rule buildBeans_single [OF _ a]) simp
  show ?thesis
    unfolding modelEmptySegment_def outputEmptySegment_def
    using buildCollectionDefinition_single [OF refl b] by simp
qed

subsection \<open>Two runs of the emitter\<close>

lemma rangeMap_mset:
  assumes "rangeMap m xs" "rangeMap m ys"
  shows "mset xs = mset ys"
proof -
  have dx: "distinct (map fst xs)" and dy: "distinct (map fst ys)"
    and eq: "map_of xs = map_of ys"
    using assms by (simp_all add: rangeMap_def)
  have "set xs = set ys"
  proof (rule set_eqI)
    fix p :: "'a \<times> 'b"
    obtain k v where p: "p = (k, v)" by (cases p)
    have "p \<in> set xs \<longleftrightarrow> map_of xs k = Some v"
      using dx by (simp add: p)
    also have "\<dots> \<longleftrightarrow> map_of ys k = Some v" by (simp add: eq)
    also have "\<dots> \<longleftrightarrow> p \<in> set ys"
      using dy by (simp add: p)
    finally show "p \<in> set xs \<longleftrightarrow> p \<in> set ys" .
  qed
  moreover have "distinct xs" "distinct ys"
    using dx dy by (simp_all add: distinct_map)
  ultimately show ?thesis
    by (simp add: set_eq_iff_mset_eq_distinct)
qed

lemma list_all2_image_mset:
  "list_all2 (\<lambda>x y. c y = f x) xs ys \<Longrightarrow> image_mset c (mset ys) = image_mset f (mset xs)"
  by (induction rule: list_all2_induct) simp_all

lemma two_runs_same_multiset:
  assumes "mset xs1 = mset xs2"
    and "list_all2 R xs1 ys1" and "list_all2 R xs2 ys2"
    and det: "\<And>x y y'. R x y \<Longrightarrow> R x y' \<Longrightarrow> c y = c y'"
  shows "image_mset c (mset ys1) = image_mset c (mset ys2)"
proof -
  define f where "f x = c (SOME y. R x y)" for x
  have f: "c y = f x" if "R x y" for x y
    unfolding f_def using det [OF that someI [of "R x", OF that]] .
  have "list_all2 (\<lambda>x y. c y = f x) xs1 ys1" "list_all2 (\<lambda>x y. c y = f x) xs2 ys2"
    using assms(2,3) f by (auto elim: list_all2_mono)
  then have "image_mset c (mset ys1) = image_mset f (mset xs1)"
    and "image_mset c (mset ys2) = image_mset f (mset xs2)"
    by (simp_all add: list_all2_image_mset)
  with assms(1) show ?thesis by simp
qed

lemma buildAttributes_mset:
  assumes "buildAttributes b out1" "buildAttributes b out2"
  shows "mset out1 = mset out2"
proof -
  from assms(1) obtain kvs1 where k1: "rangeMap (AttributesMap b) kvs1"
    and o1: "out1 = map (\<lambda>(a, r). \<lparr>Attr = a, MetricType_o = MetricType r,
                                      MetricName_o = MetricName r\<rparr>) kvs1"
    by cases auto
  from assms(2) obtain kvs2 where k2: "rangeMap (AttributesMap b) kvs2"
    and o2: "out2 = map (\<lambda>(a, r). \<lparr>Attr = a, MetricType_o = MetricType r,
                                      MetricName_o = MetricName r\<rparr>) kvs2"
    by cases auto
  show ?thesis
    unfolding o1 o2 by (simp add: rangeMap_mset [OF k1 k2])
qed

lemma buildBeans_canonical:
  assumes "buildBeans dr beans1" "buildBeans dr beans2"
  shows "image_mset canonicalBean (mset beans1) = image_mset canonicalBean (mset beans2)"
proof -
  let ?R = "\<lambda>(bean, beanContents) (out :: beanOutput).
              Query out = bean \<and> buildAttributes beanContents (Attributes_o out)"
  from assms(1) obtain kvs1 where k1: "rangeMap (BeansMap dr) kvs1" and l1: "list_all2 ?R kvs1 beans1"
    by cases auto
  from assms(2) obtain kvs2 where k2: "rangeMap (BeansMap dr) kvs2" and l2: "list_all2 ?R kvs2 beans2"
    by cases auto
  show ?thesis
  proof (rule two_runs_same_multiset [OF rangeMap_mset [OF k1 k2] l1 l2])
    fix x y y'
    assume "?R x y" "?R x y'"
    then show "canonicalBean y = canonicalBean y'"
      by (cases x) (auto simp: canonicalBean_def dest: buildAttributes_mset)
  qed
qed

lemma list_all2_map_eq:
  "list_all2 (\<lambda>x y. g y = f x) xs ys \<Longrightarrow> map g ys = map f xs"
  by (induction rule: list_all2_induct) simp_all

lemma list_all2_in_right:
  "list_all2 P xs ys \<Longrightarrow> y \<in> set ys \<Longrightarrow> \<exists>x\<in>set xs. P x y"
  by (induction rule: list_all2_induct) auto

lemma buildAttributes_distinct:
  assumes "buildAttributes b out"
  shows "distinct (map Attr out)"
  using assms
proof cases
  case (1 kvs)
  have "map Attr out = map fst kvs"
    unfolding 1(1) by (simp add: comp_def case_prod_beta)
  with 1(2) show ?thesis by (simp add: rangeMap_def)
qed

lemma buildBeans_distinct:
  assumes "buildBeans dr beans"
  shows "distinct (map Query beans) \<and> (\<forall>b\<in>set beans. distinct (map Attr (Attributes_o b)))"
  using assms
proof cases
  case (1 kvs)
  from 1(2) have "list_all2 (\<lambda>x y. Query y = fst x) kvs beans"
    by (rule list_all2_mono) auto
  then have "map Query beans = map fst kvs" by (rule list_all2_map_eq)
  with 1(1) have d: "distinct (map Query beans)" by (simp add: rangeMap_def)
  have "distinct (map Attr (Attributes_o b))" if "b \<in> set beans" for b
    using list_all2_in_right [OF 1(2) that] by (auto dest: buildAttributes_distinct)
  with d show ?thesis by blast
qed

lemma buildCollectionDefinition_distinct:
  assumes "buildCollectionDefinition dr domains"
  shows "distinct (map Domain_o domains)
       \<and> (\<forall>d\<in>set domains. distinct (map Query (Beans d))
             \<and> (\<forall>b\<in>set (Beans d). distinct (map Attr (Attributes_o b))))"
  using assms
proof cases
  case (1 kvs)
  from 1(2) have "list_all2 (\<lambda>x y. Domain_o y = fst x) kvs domains"
    by (rule list_all2_mono) auto
  then have "map Domain_o domains = map fst kvs" by (rule list_all2_map_eq)
  with 1(1) have d: "distinct (map Domain_o domains)" by (simp add: rangeMap_def)
  have "distinct (map Query (Beans d))
      \<and> (\<forall>b\<in>set (Beans d). distinct (map Attr (Attributes_o b)))" if "d \<in> set domains" for d
    using list_all2_in_right [OF 1(2) that] by (auto dest: buildBeans_distinct)
  with d show ?thesis by blast
qed

lemma reduce_scenarioTwoDeclarations:
  "reduceJavaAgentYaml scenarioTwoDeclarations = Inr modelTwoDeclarations"
  by (simp add: scenarioTwoDeclarations_def modelTwoDeclarations_def reduce_eval resolver_eval
      trim_defs)

lemma build_outputCountFirst:
  "buildCollectionDefinition modelTwoDeclarations outputCountFirst"
proof -
  let ?am = "[''count'' \<mapsto> \<lparr>MetricType = ''gauge'', MetricName = ''count''\<rparr>,
              ''errors'' \<mapsto> \<lparr>MetricType = ''delta'', MetricName = ''errors''\<rparr>]"
  let ?attrs = "[\<lparr>Attr = ''count'', MetricType_o = ''gauge'', MetricName_o = ''count''\<rparr>,
                 \<lparr>Attr = ''errors'', MetricType_o = ''delta'', MetricName_o = ''errors''\<rparr>]"
  let ?kvs = "[(''count'', \<lparr>MetricType = ''gauge'', MetricName = ''count''\<rparr>),
               (''errors'', \<lparr>MetricType = ''delta'', MetricName = ''errors''\<rparr>)]"
  have "rangeMap ?am ?kvs"
    by (auto simp: rangeMap_def fun_eq_iff)
  then have a: "buildAttributes \<lparr>AttributesMap = ?am\<rparr> ?attrs"
    by (intro buildAttributesI [where kvs = ?kvs]) simp_all
  have b: "buildBeans \<lparr>EventType = ''MyApp'',
               BeansMap = [''type=Thing,name=A'' \<mapsto> \<lparr>AttributesMap = ?am\<rparr>]\<rparr>
             [\<lparr>Query = ''type=Thing,name=A'', Attributes_o = ?attrs\<rparr>]"
    by (rule buildBeans_single [OF _ a]) simp
  show ?thesis
    unfolding modelTwoDeclarations_def outputCountFirst_def
    using buildCollectionDefinition_single [OF refl b] by simp
qed

lemma build_outputErrorsFirst:
  "buildCollectionDefinition modelTwoDeclarations outputErrorsFirst"
proof -
  let ?am = "[''count'' \<mapsto> \<lparr>MetricType = ''gauge'', MetricName = ''count''\<rparr>,
              ''errors'' \<mapsto> \<lparr>MetricType = ''delta'', MetricName = ''errors''\<rparr>]"
  let ?attrs = "[\<lparr>Attr = ''errors'', MetricType_o = ''delta'', MetricName_o = ''errors''\<rparr>,
                 \<lparr>Attr = ''count'', MetricType_o = ''gauge'', MetricName_o = ''count''\<rparr>]"
  let ?kvs = "[(''errors'', \<lparr>MetricType = ''delta'', MetricName = ''errors''\<rparr>),
               (''count'', \<lparr>MetricType = ''gauge'', MetricName = ''count''\<rparr>)]"
  have "rangeMap ?am ?kvs"
    by (auto simp: rangeMap_def fun_eq_iff)
  then have a: "buildAttributes \<lparr>AttributesMap = ?am\<rparr> ?attrs"
    by (intro buildAttributesI [where kvs = ?kvs]) simp_all
  have b: "buildBeans \<lparr>EventType = ''MyApp'',
               BeansMap = [''type=Thing,name=A'' \<mapsto> \<lparr>AttributesMap = ?am\<rparr>]\<rparr>
             [\<lparr>Query = ''type=Thing,name=A'', Attributes_o = ?attrs\<rparr>]"
    by (rule buildBeans_single [OF _ a]) simp
  show ?thesis
    unfolding modelTwoDeclarations_def outputErrorsFirst_def
    using buildCollectionDefinition_single [OF refl b] by simp
qed

subsection \<open>The emitter returns after the reducer\<close>

lemma finiteModel_empty: "finiteModel Map.empty"
  by (simp add: finiteModel_def)

lemma finiteModel_setBean:
  assumes "finiteModel dm" "finite (dom (AttributesMap b))"
  shows "finiteModel (setBean dm d q b)"
  using assms
  by (auto simp: finiteModel_def setBean_def split: option.splits if_splits)

lemma finiteModel_setAttr:
  assumes "finiteModel dm"
  shows "finiteModel (setAttr dm p a r)"
proof (cases "dm (fst p)")
  case None
  with assms show ?thesis by (simp add: setAttr_def)
next
  case (Some dr)
  show ?thesis
  proof (cases "BeansMap dr (snd p)")
    case None
    with Some assms show ?thesis by (simp add: setAttr_def)
  next
    case (Some b)
    with \<open>dm (fst p) = Some dr\<close> assms have "finite (dom (AttributesMap b))"
      by (auto simp: finiteModel_def)
    then have "finite (dom (AttributesMap (b\<lparr>AttributesMap := (AttributesMap b)(a \<mapsto> r)\<rparr>)))"
      by simp
    from finiteModel_setBean [OF assms this] Some \<open>dm (fst p) = Some dr\<close>
    show ?thesis by (simp add: setAttr_def)
  qed
qed

lemma finiteModel_new_domain:
  assumes "finiteModel dm"
  shows "finiteModel (dm(d \<mapsto> \<lparr>EventType = e, BeansMap = [q \<mapsto> \<lparr>AttributesMap = [a \<mapsto> r]\<rparr>]\<rparr>))"
  using assms
  by (auto simp: finiteModel_def split: if_splits)

lemma attrStep_finite:
  assumes "finiteModel (thisDomainMap st)"
    and "attrStep mName j dq g st raw = Inr st'"
  shows "finiteModel (thisDomainMap st')"
  using assms
  by (auto simp: attrStep_def Let_def finiteModel_setAttr finiteModel_setBean
      finiteModel_new_domain split: option.splits if_splits sum.splits)

lemma attrLoop_finite:
  "finiteModel (thisDomainMap st) \<Longrightarrow> attrLoop mName j dq g st raws = Inr st' \<Longrightarrow>
   finiteModel (thisDomainMap st')"
proof (induction raws arbitrary: st)
  case Nil
  then show ?case by simp
next
  case (Cons raw raws)
  from Cons.prems(2) obtain st1 where s1: "attrStep mName j dq g st raw = Inr st1"
    and s2: "attrLoop mName j dq g st1 raws = Inr st'"
    by (auto split: sum.splits)
  from Cons.IH [OF attrStep_finite [OF Cons.prems(1) s1] s2] show ?case .
qed

lemma metricLoop_finite:
  "finiteModel (thisDomainMap st) \<Longrightarrow> metricLoop mName j dq st gs = Inr st' \<Longrightarrow>
   finiteModel (thisDomainMap st')"
proof (induction gs arbitrary: st)
  case Nil
  then show ?case by simp
next
  case (Cons g gs)
  from Cons.prems(2) obtain st1 where
    s1: "attrLoop mName j dq g st (Split (Attributes g) CHR '','') = Inr st1"
    and s2: "metricLoop mName j dq st1 gs = Inr st'"
    by (auto split: sum.splits)
  from Cons.IH [OF attrLoop_finite [OF Cons.prems(1) s1] s2] show ?case .
qed

lemma reduceObject_finite:
  assumes "finiteModel dm" "reduceObject mName dm j = Inr dm'"
  shows "finiteModel dm'"
proof -
  from assms(2) obtain st st' where
    st0: "(case dm (domainOf j) of
            None \<Rightarrow> Inr \<lparr>thisDomainMap = dm, thisDomain = None, thisBean = None\<rparr>
          | Some dr \<Rightarrow>
              (case goIndex (Split (ObjectName j) CHR '':'') 1 of
                 Inl e \<Rightarrow> Inl e
               | Inr q \<Rightarrow>
                   Inr \<lparr>thisDomainMap = dm, thisDomain = Some (domainOf j),
                        thisBean = (if BeansMap dr q \<noteq> None then Some (domainOf j, q) else None)\<rparr>)) = Inr st"
    and ml: "metricLoop mName j (Split (ObjectName j) CHR '':'') st (Metrics j) = Inr st'"
    and dm': "dm' = thisDomainMap st'"
    by (auto simp: reduceObject_def goIndex_dq_0 Let_def split: sum.splits)
  have st: "thisDomainMap st = dm"
    using st0 by (auto split: option.splits sum.splits if_splits)
  from metricLoop_finite [OF _ ml] assms(1) st dm' show ?thesis by simp
qed

lemma reduceLoop_finite:
  "finiteModel dm \<Longrightarrow> reduceLoop mName dm js = Inr dm' \<Longrightarrow> finiteModel dm'"
proof (induction js arbitrary: dm)
  case Nil
  then show ?case by simp
next
  case (Cons j js)
  from Cons.prems(2) obtain dm1 where s1: "reduceObject mName dm j = Inr dm1"
    and s2: "reduceLoop mName dm1 js = Inr dm'"
    by (auto split: sum.splits)
  from Cons.IH [OF reduceObject_finite [OF Cons.prems(1) s1] s2] show ?case .
qed

lemma reduce_finiteModel: "reduceJavaAgentYaml m = Inr dm \<Longrightarrow> finiteModel dm"
  unfolding reduceJavaAgentYaml_def by (rule reduceLoop_finite [OF finiteModel_empty])

lemma rangeMap_exists:
  assumes "finite (dom m)"
  shows "\<exists>kvs. rangeMap m kvs"
proof -
  from finite_distinct_list [OF assms] obtain ks where ks: "set ks = dom m" "distinct ks"
    by blast
  let ?kvs = "map (\<lambda>k. (k, the (m k))) ks"
  have d: "distinct (map fst ?kvs)" using ks(2) by (simp add: comp_def)
  have mo: "map_of ?kvs = m"
  proof
    fix k
    show "map_of ?kvs k = m k"
    proof (cases "k \<in> set ks")
      case True
      then have "map_of ?kvs k = Some (the (m k))"
        by (simp add: map_of_map_restrict)
      with True ks(1) show ?thesis by auto
    next
      case False
      then have "map_of ?kvs k = None"
        by (simp add: map_of_map_restrict)
      with False ks(1) show ?thesis by auto
    qed
  qed
  have "rangeMap m ?kvs" by (simp only: rangeMap_def d mo)
  then show ?thesis ..
qed

lemma rangeMap_lookup:
  assumes "rangeMap m kvs" "(k, v) \<in> set kvs"
  shows "m k = Some v"
proof -
  from assms(1) have d: "distinct (map fst kvs)" and e: "map_of kvs = m"
    by (simp_all add: rangeMap_def)
  from d assms(2) have "map_of kvs k = Some v" by simp
  then show ?thesis by (simp only: e)
qed

lemma list_all2_exists:
  "\<forall>x\<in>set xs. \<exists>y. R x y \<Longrightarrow> \<exists>ys. list_all2 R xs ys"
proof (induction xs)
  case Nil
  then show ?case by simp
next
  case (Cons x xs)
  then obtain y ys where "R x y" "list_all2 R xs ys" by auto
  then have "list_all2 R (x # xs) (y # ys)" by simp
  then show ?case by blast
qed

lemma buildAttributes_exists:
  "finite (dom (AttributesMap b)) \<Longrightarrow> \<exists>attrs. buildAttributes b attrs"
  using rangeMap_exists [of "AttributesMap b"] by (auto intro: buildAttributes.intros)

lemma buildBeans_exists:
  assumes "finite (dom (BeansMap dr))"
    and "\<forall>q b. BeansMap dr q = Some b \<longrightarrow> finite (dom (AttributesMap b))"
  shows "\<exists>beans. buildBeans dr beans"
proof -
  from rangeMap_exists [OF assms(1)] obtain kvs where kvs: "rangeMap (BeansMap dr) kvs" by blast
  have "\<forall>x\<in>set kvs. \<exists>out :: beanOutput.
          (\<lambda>(bean, beanContents) out.
              Query out = bean \<and> buildAttributes beanContents (Attributes_o out)) x out"
  proof
    fix x assume x: "x \<in> set kvs"
    obtain q b where qb: "x = (q, b)" by (cases x)
    with x kvs have "BeansMap dr q = Some b"
      by (auto intro: rangeMap_lookup)
    with assms(2) obtain attrs where "buildAttributes b attrs"
      using buildAttributes_exists by blast
    then have "Query \<lparr>Query = q, Attributes_o = attrs\<rparr> = q
        \<and> buildAttributes b (Attributes_o \<lparr>Query = q, Attributes_o = attrs\<rparr>)" by simp
    then show "\<exists>out :: beanOutput. (\<lambda>(bean, beanContents) out.
              Query out = bean \<and> buildAttributes beanContents (Attributes_o out)) x out"
      unfolding qb by blast
  qed
  from list_all2_exists [OF this] kvs show ?thesis
    by (auto intro: buildBeans.intros)
qed

lemma buildCollectionDefinition_exists:
  assumes "finiteModel dm"
  shows "\<exists>domains. buildCollectionDefinition dm domains"
proof -
  from assms have "finite (dom dm)" by (simp add: finiteModel_def)
  from rangeMap_exists [OF this] obtain kvs where kvs: "rangeMap dm kvs" by blast
  have "\<forall>x\<in>set kvs. \<exists>out :: domainOutput.
          (\<lambda>(domain, domainContents) out.
              Domain_o out = domain \<and> EventType_o out = EventType domainContents
              \<and> buildBeans domainContents (Beans out)) x out"
  proof
    fix x assume x: "x \<in> set kvs"
    obtain d dr where ddr: "x = (d, dr)" by (cases x)
    with x kvs have "dm d = Some dr"
      by (auto intro: rangeMap_lookup)
    with assms obtain beans where "buildBeans dr beans"
      using buildBeans_exists [of dr] by (auto simp: finiteModel_def)
    then have "Domain_o \<lparr>Domain_o = d, EventType_o = EventType dr, Beans = beans\<rparr> = d
        \<and> EventType_o \<lparr>Domain_o = d, EventType_o = EventType dr, Beans = beans\<rparr> = EventType dr
        \<and> buildBeans dr (Beans \<lparr>Domain_o = d, EventType_o = EventType dr, Beans = beans\<rparr>)"
      by simp
    then show "\<exists>out :: domainOutput. (\<lambda>(domain, domainContents) out.
              Domain_o out = domain \<and> EventType_o out = EventType domainContents
              \<and> buildBeans domainContents (Beans out)) x out"
      unfolding ddr by blast
  qed
  from list_all2_exists [OF this] kvs show ?thesis
    by (auto intro: buildCollectionDefinition.intros)
qed

lemma emitter_returns_after_reducer:
  "reduceJavaAgentYaml m = Inr dm \<Longrightarrow> \<exists>domains. buildCollectionDefinition dm domains"
  by (rule buildCollectionDefinition_exists [OF reduce_finiteModel])

subsection \<open>All the placeholders\<close>

lemma not_word_lbrace: "\<not> isWordChar CHR ''{''"
  by (simp add: isWordChar_def)

lemma placeholder_not_inside_match:
  assumes t1: "t = ''{'' @ w' @ ''}'' @ post'" and w': "list_all isWordChar w'"
    and t2: "t = pre @ ''{'' @ rest" and pre: "pre \<noteq> []"
  shows "length w' + 2 \<le> length pre"
proof (rule ccontr)
  assume "\<not> length w' + 2 \<le> length pre"
  then have lt: "length pre < length w' + 2" by simp
  from pre have pos: "0 < length pre" by simp
  have a: "t ! length pre = CHR ''{''"
    unfolding t2 by (simp add: nth_append)
  have b: "t ! length pre = (w' @ ''}'') ! (length pre - 1)"
    unfolding t1 using pos lt by (cases "length pre") (simp_all add: nth_append)
  show False
  proof (cases "length pre - 1 < length w'")
    case True
    then have "(w' @ ''}'') ! (length pre - 1) \<in> set w'"
      by (simp add: nth_append)
    with w' have "isWordChar (t ! length pre)"
      by (simp add: b list_all_iff)
    with a show False by (simp add: not_word_lbrace)
  next
    case False
    with lt pos have "length pre - 1 = length w'" by simp
    then have "(w' @ ''}'') ! (length pre - 1) = CHR ''}''"
      by (simp add: nth_append)
    with a b show False by simp
  qed
qed

lemma FindAllString_complete:
  assumes w: "w \<noteq> []" "list_all isWordChar w"
  shows "t = pre @ ''{'' @ w @ ''}'' @ post \<Longrightarrow> ''{'' @ w @ ''}'' \<in> set (FindAllString t)"
proof (induction t arbitrary: pre rule: FindAllString.induct)
  case 1
  then show ?case by simp
next
  case (2 c cs)
  show ?case
  proof (cases pre)
    case Nil
    with "2.prems" have eq: "c # cs = ''{'' @ w @ ''}'' @ post" by simp
    have n: "matchLen (c # cs) = length w + 2"
      unfolding eq by (rule matchLen_placeholder [OF w])
    have "take (length w + 2) (c # cs) = ''{'' @ w @ ''}''"
      unfolding eq by simp
    then show ?thesis
      by (simp add: n del: take_Suc_Cons)
  next
    case (Cons p pre')
    with "2.prems" have cs: "cs = pre' @ ''{'' @ w @ ''}'' @ post" by simp
    show ?thesis
    proof (cases "matchLen (c # cs) = 0")
      case True
      from "2.IH"(1) [OF True cs] True show ?thesis by simp
    next
      case False
      from matchLen_shape [OF False] obtain w' post' where
        sh: "c # cs = ''{'' @ w' @ ''}'' @ post'" and w': "list_all isWordChar w'"
        and n: "matchLen (c # cs) = length w' + 2"
        by blast
      have le: "length w' + 2 \<le> length pre"
        by (rule placeholder_not_inside_match [OF sh w' "2.prems"]) (simp add: Cons)
      have "drop (matchLen (c # cs) - 1) cs = drop (matchLen (c # cs)) (c # cs)"
        using False by (cases "matchLen (c # cs)") simp_all
      also have "\<dots> = drop (length w' + 2) (c # cs)"
        by (simp only: n)
      also have "\<dots> = drop (length w' + 2) pre @ ''{'' @ w @ ''}'' @ post"
        unfolding "2.prems" using le by simp
      finally have "drop (matchLen (c # cs) - 1) cs
          = drop (length w' + 2) pre @ ''{'' @ w @ ''}'' @ post" .
      from "2.IH"(2) [OF False this] False show ?thesis by simp
    qed
  qed
qed

lemma FindAllString_occurs:
  "m \<in> set (FindAllString s) \<Longrightarrow>
   \<exists>pre w post. s = pre @ ''{'' @ w @ ''}'' @ post \<and> m = ''{'' @ w @ ''}''
      \<and> w \<noteq> [] \<and> list_all isWordChar w"
proof (induction s rule: FindAllString.induct)
  case 1
  then show ?case by simp
next
  case (2 c cs)
  show ?case
  proof (cases "matchLen (c # cs) = 0")
    case True
    with 2 obtain pre w post where "cs = pre @ ''{'' @ w @ ''}'' @ post" "m = ''{'' @ w @ ''}''"
      "w \<noteq> []" "list_all isWordChar w"
      by auto
    then have "c # cs = (c # pre) @ ''{'' @ w @ ''}'' @ post \<and> m = ''{'' @ w @ ''}''
        \<and> w \<noteq> [] \<and> list_all isWordChar w"
      by simp
    then show ?thesis by blast
  next
    case False
    from matchLen_shape [OF False] obtain w post where
      s: "c # cs = ''{'' @ w @ ''}'' @ post" and w: "w \<noteq> []" "list_all isWordChar w"
      and n: "matchLen (c # cs) = length w + 2"
      by blast
    have tk: "take (matchLen (c # cs)) (c # cs) = ''{'' @ w @ ''}''"
      unfolding n by (subst s) simp
    have dr: "drop (matchLen (c # cs) - 1) cs = drop (matchLen (c # cs)) (c # cs)"
      using False by (cases "matchLen (c # cs)") simp_all
    from 2 False consider "m = take (matchLen (c # cs)) (c # cs)"
      | "m \<in> set (FindAllString (drop (matchLen (c # cs) - 1) cs))"
      by auto
    then show ?thesis
    proof cases
      case 1
      with tk s w have "c # cs = [] @ ''{'' @ w @ ''}'' @ post \<and> m = ''{'' @ w @ ''}''
          \<and> w \<noteq> [] \<and> list_all isWordChar w"
        by simp
      then show ?thesis by blast
    next
      case 2
      from "2.IH"(2) [OF False 2] obtain pre u post' where
        d: "drop (matchLen (c # cs) - 1) cs = pre @ ''{'' @ u @ ''}'' @ post'"
        and m: "m = ''{'' @ u @ ''}''" and u: "u \<noteq> []" "list_all isWordChar u"
        by blast
      have "c # cs = take (matchLen (c # cs)) (c # cs) @ drop (matchLen (c # cs)) (c # cs)"
        by (simp only: append_take_drop_id)
      also have "\<dots> = (take (matchLen (c # cs)) (c # cs) @ pre) @ ''{'' @ u @ ''}'' @ post'"
        by (simp only: dr [symmetric] d append_assoc)
      finally have "c # cs = (take (matchLen (c # cs)) (c # cs) @ pre) @ ''{'' @ u @ ''}'' @ post'" .
      with m u show ?thesis by blast
    qed
  qed
qed

lemma FindAllString_set:
  "set (FindAllString t) =
     {ph. \<exists>pre w post. t = pre @ ''{'' @ w @ ''}'' @ post \<and> ph = ''{'' @ w @ ''}''
            \<and> w \<noteq> [] \<and> list_all isWordChar w}"
proof (rule set_eqI)
  fix ph
  show "ph \<in> set (FindAllString t) \<longleftrightarrow>
        ph \<in> {ph. \<exists>pre w post. t = pre @ ''{'' @ w @ ''}'' @ post \<and> ph = ''{'' @ w @ ''}''
                  \<and> w \<noteq> [] \<and> list_all isWordChar w}"
  proof
    assume "ph \<in> set (FindAllString t)"
    from FindAllString_occurs [OF this] show "ph \<in> {ph. \<exists>pre w post.
        t = pre @ ''{'' @ w @ ''}'' @ post \<and> ph = ''{'' @ w @ ''}'' \<and> w \<noteq> [] \<and> list_all isWordChar w}"
      by blast
  next
    assume "ph \<in> {ph. \<exists>pre w post. t = pre @ ''{'' @ w @ ''}'' @ post \<and> ph = ''{'' @ w @ ''}''
                  \<and> w \<noteq> [] \<and> list_all isWordChar w}"
    then obtain pre w post where t: "t = pre @ ''{'' @ w @ ''}'' @ post"
      and ph: "ph = ''{'' @ w @ ''}''" and w: "w \<noteq> []" "list_all isWordChar w"
      by blast
    from FindAllString_complete [OF w t] ph show "ph \<in> set (FindAllString t)" by simp
  qed
qed

subsection \<open>The resolver is consulted when a domain is created\<close>

lemma attrStep_ignores_resolver:
  assumes "thisBean st \<noteq> None \<or> thisDomain st \<noteq> None"
  shows "attrStep mName j dq g st raw = attrStep mName' j' dq g st raw"
  using assms by (auto simp: attrStep_def Let_def split: option.splits)

lemma attrStep_keeps_pointer:
  assumes "thisBean st \<noteq> None \<or> thisDomain st \<noteq> None"
    and "attrStep mName j dq g st raw = Inr st'"
  shows "thisBean st' \<noteq> None \<or> thisDomain st' \<noteq> None"
  using assms by (auto simp: attrStep_def Let_def split: option.splits if_splits sum.splits)

lemma attrLoop_ignores_resolver:
  "thisBean st \<noteq> None \<or> thisDomain st \<noteq> None \<Longrightarrow>
   attrLoop mName j dq g st raws = attrLoop mName' j' dq g st raws"
proof (induction raws arbitrary: st)
  case Nil
  then show ?case by simp
next
  case (Cons raw raws)
  note eq = attrStep_ignores_resolver [OF Cons.prems, of mName j dq g raw mName' j']
  show ?case
  proof (cases "attrStep mName' j' dq g st raw")
    case (Inl e)
    with eq show ?thesis by simp
  next
    case (Inr st1)
    with eq have s1: "attrStep mName j dq g st raw = Inr st1" by simp
    from attrStep_keeps_pointer [OF Cons.prems s1]
    have "attrLoop mName j dq g st1 raws = attrLoop mName' j' dq g st1 raws"
      by (rule Cons.IH)
    with s1 Inr show ?thesis by simp
  qed
qed

lemma attrLoop_keeps_pointer:
  "thisBean st \<noteq> None \<or> thisDomain st \<noteq> None \<Longrightarrow>
   attrLoop mName j dq g st raws = Inr st' \<Longrightarrow>
   thisBean st' \<noteq> None \<or> thisDomain st' \<noteq> None"
proof (induction raws arbitrary: st)
  case Nil
  then show ?case by simp
next
  case (Cons raw raws)
  from Cons.prems(2) obtain st1 where s1: "attrStep mName j dq g st raw = Inr st1"
    and s2: "attrLoop mName j dq g st1 raws = Inr st'"
    by (auto split: sum.splits)
  from Cons.IH [OF attrStep_keeps_pointer [OF Cons.prems(1) s1] s2] show ?case .
qed

lemma metricLoop_ignores_resolver:
  "thisBean st \<noteq> None \<or> thisDomain st \<noteq> None \<Longrightarrow>
   metricLoop mName j dq st gs = metricLoop mName' j' dq st gs"
proof (induction gs arbitrary: st)
  case Nil
  then show ?case by simp
next
  case (Cons g gs)
  note eq = attrLoop_ignores_resolver [OF Cons.prems,
      of mName j dq g "Split (Attributes g) CHR '',''" mName' j']
  show ?case
  proof (cases "attrLoop mName' j' dq g st (Split (Attributes g) CHR '','')")
    case (Inl e)
    with eq show ?thesis by simp
  next
    case (Inr st1)
    with eq have s1: "attrLoop mName j dq g st (Split (Attributes g) CHR '','') = Inr st1"
      by simp
    from attrLoop_keeps_pointer [OF Cons.prems s1]
    have "metricLoop mName j dq st1 gs = metricLoop mName' j' dq st1 gs"
      by (rule Cons.IH)
    with s1 Inr show ?thesis by simp
  qed
qed

lemma reduceObject_ignores_resolver:
  assumes "dm (domainOf j) \<noteq> None"
  shows "reduceObject mName' dm (j\<lparr>RootMetricName := t\<rparr>) = reduceObject mName dm j"
proof -
  from assms obtain dr where dr: "dm (domainOf j) = Some dr" by blast
  show ?thesis
  proof (cases "goIndex (Split (ObjectName j) CHR '':'') 1")
    case (Inl e)
    then show ?thesis
      by (simp add: reduceObject_def goIndex_dq_0 dr Let_def)
  next
    case (Inr q)
    let ?st = "\<lparr>thisDomainMap = dm, thisDomain = Some (domainOf j),
        thisBean = (if BeansMap dr q \<noteq> None then Some (domainOf j, q) else None)\<rparr>"
    have "metricLoop mName' (j\<lparr>RootMetricName := t\<rparr>) (Split (ObjectName j) CHR '':'') ?st (Metrics j)
        = metricLoop mName j (Split (ObjectName j) CHR '':'') ?st (Metrics j)"
      by (rule metricLoop_ignores_resolver) simp
    then show ?thesis
      using Inr by (simp add: reduceObject_def goIndex_dq_0 dr Let_def)
  qed
qed

lemma reduceObject_no_metrics:
  assumes "Metrics j = []"
  shows "reduceObject mName dm (j\<lparr>RootMetricName := t\<rparr>) = reduceObject mName dm j"
  using assms by (simp add: reduceObject_def Let_def split: sum.splits option.splits)

lemma domain_of_earlier_contributor:
  assumes "reduceLoop mName Map.empty pre = Inr dm"
    and "j' \<in> set pre" "Metrics j' \<noteq> []" "domainOf j' = d"
  shows "dm d \<noteq> None"
proof -
  from reduceLoop_effect [OF assms(1)]
  have ev: "eventView dm = map_of (concat (map (eventPairs mName) pre))"
    by (simp add: eventView_empty)
  have "(d, getEventName mName (RootMetricName j') (queryOf j'))
      \<in> set (concat (map (eventPairs mName) pre))"
    using assms(2-4) by (auto simp: eventPairs_def)
  then have "d \<in> fst ` set (concat (map (eventPairs mName) pre))"
    by (rule image_eqI [rotated]) simp
  then have "map_of (concat (map (eventPairs mName) pre)) d \<noteq> None"
    by (simp only: map_of_eq_None_iff simp_thms)
  then show ?thesis
    by (auto simp: ev [symmetric] eventView_def)
qed

lemma reduce_ignores_later_template:
  assumes "reduceJavaAgentYaml m = Inr dm"
    and "JMX m = pre @ j # post"
    and "Metrics j = [] \<or> (\<exists>j'\<in>set pre. Metrics j' \<noteq> [] \<and> domainOf j' = domainOf j)"
  shows "reduceJavaAgentYaml (m\<lparr>JMX := pre @ j\<lparr>RootMetricName := t\<rparr> # post\<rparr>) = Inr dm"
proof -
  from assms(1,2) obtain dm1 where p: "reduceLoop (Name m) Map.empty pre = Inr dm1"
    and r: "reduceLoop (Name m) dm1 (j # post) = Inr dm"
    by (auto simp: reduceJavaAgentYaml_def reduceLoop_append split: sum.splits)
  have "reduceObject (Name m) dm1 (j\<lparr>RootMetricName := t\<rparr>) = reduceObject (Name m) dm1 j"
  proof (cases "Metrics j = []")
    case True
    then show ?thesis by (rule reduceObject_no_metrics)
  next
    case False
    with assms(3) obtain j' where "j' \<in> set pre" "Metrics j' \<noteq> []" "domainOf j' = domainOf j"
      by blast
    from domain_of_earlier_contributor [OF p this] show ?thesis
      by (rule reduceObject_ignores_resolver)
  qed
  with r have "reduceLoop (Name m) dm1 (j\<lparr>RootMetricName := t\<rparr> # post) = Inr dm"
    by simp
  with p show ?thesis
    by (simp add: reduceJavaAgentYaml_def reduceLoop_append)
qed

subsection \<open>Strings without white space around them\<close>

lemma TrimSpace_pretrimmed:
  assumes "leadingSpace s = 0" "trailingSpace (rev s) = 0"
  shows "TrimSpace s = s"
proof -
  have l: "TrimLeftSpace s = s"
    using assms(1) by (cases s) simp_all
  have "trimRev (rev s) = rev s"
    using assms(2) by (cases "rev s") simp_all
  then show ?thesis
    by (simp add: TrimSpace_def TrimRightSpace_def l)
qed

section \<open>The claims\<close>

subsection \<open>The reducer\<close>

text \<open>
  C1, as the code has it. When \<^verbatim>\<open>reduceJavaAgentYaml\<close> returns, the entry it holds
  for a domain, a query and an attribute is the one of the first occurrence of that
  trimmed attribute name under that domain and query, in the order of the input, the
  query of a declaration being the text of its object name between the first and the
  second colon: its kind is \<^verbatim>\<open>convertMetricType\<close> of the kind of the first metric
  group that names the attribute, whatever later declarations or metric groups say, and
  its metric name is the attribute name. The entries are the values of a map, so a name
  is a key once.
\<close>

theorem reduce_first_kind_wins:
  assumes "reduceJavaAgentYaml m = Inr dm"
  shows "attrsAt dm (d, q) a =
           (case firstOccurrence m d q a of
              None \<Rightarrow> None
            | Some (d', q', a', t) \<Rightarrow> Some \<lparr>MetricType = convertMetricType t, MetricName = a\<rparr>)"
  unfolding firstOccurrence_def attrView_apply [symmetric] reduce_views(1) [OF assms]
  by (rule map_of_entryOf_find)

theorem reduce_first_kind_wins_witness:
  "attributeOf (reduceJavaAgentYaml scenarioTwoDeclarations)
     ''domain'' ''type=Thing,name=A'' ''count'' = Some \<lparr>MetricType = ''gauge'', MetricName = ''count''\<rparr>
   \<and> attributeOf (reduceJavaAgentYaml scenarioTwoDeclarations)
     ''domain'' ''type=Thing,name=A'' ''errors'' = Some \<lparr>MetricType = ''delta'', MetricName = ''errors''\<rparr>"
proof -
  have "\<not> isl (reduceJavaAgentYaml scenarioTwoDeclarations)" by code_simp
  then obtain dm where r: "reduceJavaAgentYaml scenarioTwoDeclarations = Inr dm"
    using not_isl_Inr by blast
  have f: "firstOccurrence scenarioTwoDeclarations ''domain'' ''type=Thing,name=A'' ''count''
      = Some (''domain'', ''type=Thing,name=A'', ''count'', ''simple'')"
    by code_simp
  have f': "firstOccurrence scenarioTwoDeclarations ''domain'' ''type=Thing,name=A'' ''errors''
      = Some (''domain'', ''type=Thing,name=A'', ''errors'', ''monotonically_increasing'')"
    by code_simp
  have c: "convertMetricType ''simple'' = ''gauge''" by code_simp
  have c': "convertMetricType ''monotonically_increasing'' = ''delta''" by code_simp
  from reduce_first_kind_wins [OF r, of "''domain''" "''type=Thing,name=A''" "''count''"]
  have a: "attrsAt dm (''domain'', ''type=Thing,name=A'') ''count''
      = Some \<lparr>MetricType = ''gauge'', MetricName = ''count''\<rparr>"
    unfolding f by (simp only: option.case prod.case c)
  from reduce_first_kind_wins [OF r, of "''domain''" "''type=Thing,name=A''" "''errors''"]
  have b: "attrsAt dm (''domain'', ''type=Thing,name=A'') ''errors''
      = Some \<lparr>MetricType = ''delta'', MetricName = ''errors''\<rparr>"
    unfolding f' by (simp only: option.case prod.case c')
  from a b show ?thesis by (simp add: attributeOf_def r)
qed

text \<open>
  C1, as it is stated, fails when the query is all the text after the first colon: of
  three declarations \<open>d:k=v:x\<close>, \<open>d:k=v:y\<close> and \<open>d:k=v:y\<close> that name \<open>a\<close>, the first
  as \<open>monotonically_increasing\<close> and the second as \<open>simple\<close>, nothing is recorded
  under the query \<open>k=v:y\<close>, whose first kind would give \<open>gauge\<close>, and the entry of
  \<open>a\<close> under \<open>k=v\<close> is \<open>delta\<close>.
\<close>

theorem first_kind_keyed_by_second_field:
  "attributeOf (reduceJavaAgentYaml scenarioSecondColonKinds) ''d'' ''k=v:y'' ''a'' = None
   \<and> attributeOf (reduceJavaAgentYaml scenarioSecondColonKinds) ''d'' ''k=v'' ''a''
       = Some \<lparr>MetricType = ''delta'', MetricName = ''a''\<rparr>
   \<and> convertMetricType ''simple'' = ''gauge''"
  by code_simp

text \<open>
  C2, as the code has it. When \<^verbatim>\<open>reduceJavaAgentYaml\<close> returns, the attribute names
  under a domain and a query are the union, over the declarations of that domain and
  query, of their comma-separated and trimmed attribute names, the query of a
  declaration being the text of its object name between the first and the second
  colon; they are the keys of a map, so none is there twice.
\<close>

theorem reduce_attribute_names:
  assumes "reduceJavaAgentYaml m = Inr dm"
  shows "dom (attrsAt dm (d, q)) =
           (\<Union>j\<in>set (filter (\<lambda>j. domainOf j = d \<and> queryOf j = q) (JMX m)). attributeNames j)"
proof -
  have "a \<in> dom (attrsAt dm (d, q)) \<longleftrightarrow>
          (\<exists>j\<in>set (JMX m). domainOf j = d \<and> queryOf j = q \<and> a \<in> attributeNames j)" for a
  proof -
    have "a \<in> dom (attrsAt dm (d, q)) \<longleftrightarrow> attrView dm (d, q, a) \<noteq> None"
      by (simp add: attrView_apply dom_def)
    also have "\<dots> \<longleftrightarrow> (d, q, a) \<in> fst ` set (map entryOf (occurrences m))"
      unfolding reduce_views(1) [OF assms] by (simp only: map_of_eq_None_iff simp_thms)
    finally show ?thesis by (simp only: occurrence_keys)
  qed
  then show ?thesis by auto
qed

theorem reduce_attribute_names_witness:
  "\<exists>dm. reduceJavaAgentYaml scenarioTwoDeclarations = Inr dm
     \<and> dom (attrsAt dm (''domain'', ''type=Thing,name=A'')) = {''count'', ''errors''}"
proof -
  have "\<not> isl (reduceJavaAgentYaml scenarioTwoDeclarations)" by code_simp
  then obtain dm where r: "reduceJavaAgentYaml scenarioTwoDeclarations = Inr dm"
    using not_isl_Inr by blast
  have u: "(\<Union>j\<in>set (filter (\<lambda>j. domainOf j = ''domain'' \<and> queryOf j = ''type=Thing,name=A'')
                 (JMX scenarioTwoDeclarations)). attributeNames j)
        = {''count'', ''errors''}"
    by code_simp
  from reduce_attribute_names [OF r, of "''domain''" "''type=Thing,name=A''"]
  have "dom (attrsAt dm (''domain'', ''type=Thing,name=A'')) = {''count'', ''errors''}"
    by (simp only: u)
  with r show ?thesis by blast
qed

text \<open>
  C2, as it is stated, fails when the query is all the text after the first colon: the
  declarations \<open>d:k=v:x\<close> with \<open>a\<close> and \<open>d:k=v:y\<close> with \<open>b\<close> make one group \<open>k=v\<close>
  with both names, and nothing under \<open>k=v:x\<close> or \<open>k=v:y\<close>.
\<close>

theorem attribute_names_grouped_by_second_field:
  "attributeOf (reduceJavaAgentYaml scenarioSecondColonNames) ''d'' ''k=v:x'' ''a'' = None
   \<and> attributeOf (reduceJavaAgentYaml scenarioSecondColonNames) ''d'' ''k=v:y'' ''b'' = None
   \<and> attributeOf (reduceJavaAgentYaml scenarioSecondColonNames) ''d'' ''k=v'' ''a''
       = Some \<lparr>MetricType = ''gauge'', MetricName = ''a''\<rparr>
   \<and> attributeOf (reduceJavaAgentYaml scenarioSecondColonNames) ''d'' ''k=v'' ''b''
       = Some \<lparr>MetricType = ''gauge'', MetricName = ''b''\<rparr>"
  by code_simp

text \<open>
  C3, as the code has it. When \<^verbatim>\<open>reduceJavaAgentYaml\<close> returns, the event type of
  a domain is the result of \<^verbatim>\<open>getEventName\<close> for the application name, the template
  and the query (the text between the first and the second colon) of the first
  declaration of that domain that has a metric group, and a domain none of whose
  declarations has a metric group is not in the map. It is computed once, when the
  domain is created, and never again: the template of any other declaration, one
  without metric group or one whose domain an earlier declaration has created, can be
  replaced by any template, also one for which \<^verbatim>\<open>getEventName\<close> panics, and the
  reducer returns the same map; a pass over a declaration whose domain is in the map
  does not depend on the application name or the template; and within a pass the body
  of the attribute loop depends on them only while both pointers are \<^verbatim>\<open>nil\<close>, which
  they are no more after its first run.
\<close>

theorem reduce_event_type_computed_once:
  assumes "reduceJavaAgentYaml m = Inr dm"
  shows "(case firstContributor m d of
            None \<Rightarrow> dm d = None
          | Some j \<Rightarrow> \<exists>dr. dm d = Some dr
                       \<and> getEventName (Name m) (RootMetricName j) (queryOf j) = Inr (EventType dr))
       \<and> (\<forall>pre j post t.
             JMX m = pre @ j # post
             \<and> (Metrics j = [] \<or> (\<exists>j'\<in>set pre. Metrics j' \<noteq> [] \<and> domainOf j' = domainOf j))
             \<longrightarrow> reduceJavaAgentYaml (m\<lparr>JMX := pre @ j\<lparr>RootMetricName := t\<rparr> # post\<rparr>) = Inr dm)
       \<and> (\<forall>mName mName' dm0 j t.
             dm0 (domainOf j) \<noteq> None
             \<longrightarrow> reduceObject mName' dm0 (j\<lparr>RootMetricName := t\<rparr>) = reduceObject mName dm0 j)
       \<and> (\<forall>mName j dq g st raw mName' j'.
             thisBean st \<noteq> None \<or> thisDomain st \<noteq> None
             \<longrightarrow> attrStep mName j dq g st raw = attrStep mName' j' dq g st raw)
       \<and> (\<forall>mName j g st raw st'.
             ptrInv j st \<and> attrStep mName j (Split (ObjectName j) CHR '':'') g st raw = Inr st'
             \<longrightarrow> thisBean st' \<noteq> None)"
proof -
  have "eventView dm d =
      map_option (\<lambda>j. getEventName (Name m) (RootMetricName j) (queryOf j)) (firstContributor m d)"
    unfolding reduce_views(2) [OF assms] firstContributor_def by (rule map_of_eventPairs_find)
  then have first: "case firstContributor m d of
            None \<Rightarrow> dm d = None
          | Some j \<Rightarrow> \<exists>dr. dm d = Some dr
                       \<and> getEventName (Name m) (RootMetricName j) (queryOf j) = Inr (EventType dr)"
    by (cases "firstContributor m d") (auto simp: eventView_def)
  have later: "\<forall>pre j post t.
             JMX m = pre @ j # post
             \<and> (Metrics j = [] \<or> (\<exists>j'\<in>set pre. Metrics j' \<noteq> [] \<and> domainOf j' = domainOf j))
             \<longrightarrow> reduceJavaAgentYaml (m\<lparr>JMX := pre @ j\<lparr>RootMetricName := t\<rparr> # post\<rparr>) = Inr dm"
    using reduce_ignores_later_template [OF assms] by blast
  have pass: "\<forall>mName mName' dm0 j t.
             dm0 (domainOf j) \<noteq> None
             \<longrightarrow> reduceObject mName' dm0 (j\<lparr>RootMetricName := t\<rparr>) = reduceObject mName dm0 j"
    using reduceObject_ignores_resolver by blast
  have step: "\<forall>mName j dq g st raw mName' j'.
             thisBean st \<noteq> None \<or> thisDomain st \<noteq> None
             \<longrightarrow> attrStep mName j dq g st raw = attrStep mName' j' dq g st raw"
    using attrStep_ignores_resolver by blast
  have after: "\<forall>mName j g st raw st'.
             ptrInv j st \<and> attrStep mName j (Split (ObjectName j) CHR '':'') g st raw = Inr st'
             \<longrightarrow> thisBean st' \<noteq> None"
    using attrStep_effect by blast
  from first later pass step after show ?thesis by (intro conjI)
qed

theorem reduce_event_type_computed_once_witness:
  "eventTypeOf (reduceJavaAgentYaml scenarioLaterTemplate) ''d'' = Some ''MyApp_A''
   \<and> getEventName ''MyApp'' ''{k}'' ''kv'' = Inl IndexOutOfRange
   \<and> reduceJavaAgentYaml (scenarioLaterTemplate\<lparr>JMX :=
        [\<lparr>ObjectName = ''d:kv'', RootMetricName = ''A'',
            Metrics = [\<lparr>Attributes = ''x'', Type = ''simple''\<rparr>]\<rparr>,
         \<lparr>ObjectName = ''d:kv'', RootMetricName = ''{k}'',
            Metrics = [\<lparr>Attributes = ''y'', Type = ''simple''\<rparr>]\<rparr>]\<rparr>)
       = reduceJavaAgentYaml scenarioLaterTemplate"
proof -
  let ?j1 = "\<lparr>ObjectName = ''d:kv'', RootMetricName = ''A'',
        Metrics = [\<lparr>Attributes = ''x'', Type = ''simple''\<rparr>]\<rparr>"
  let ?j2 = "\<lparr>ObjectName = ''d:kv'', RootMetricName = ''B'',
        Metrics = [\<lparr>Attributes = ''y'', Type = ''simple''\<rparr>]\<rparr>"
  have "\<not> isl (reduceJavaAgentYaml scenarioLaterTemplate)" by code_simp
  then obtain dm where r: "reduceJavaAgentYaml scenarioLaterTemplate = Inr dm"
    using not_isl_Inr by blast
  note fact = reduce_event_type_computed_once [OF r, of "''d''"]
  have f: "firstContributor scenarioLaterTemplate ''d'' = Some ?j1"
    by code_simp
  have g: "getEventName (Name scenarioLaterTemplate) ''A'' (queryOf ?j1) = Inr ''MyApp_A''"
    by code_simp
  from conjunct1 [OF fact]
  obtain dr where "dm ''d'' = Some dr" "EventType dr = ''MyApp_A''"
    unfolding f by (auto simp: g)
  then have a: "eventTypeOf (reduceJavaAgentYaml scenarioLaterTemplate) ''d'' = Some ''MyApp_A''"
    by (simp add: eventTypeOf_def r)
  have b: "getEventName ''MyApp'' ''{k}'' ''kv'' = Inl IndexOutOfRange"
    by code_simp
  have h1: "JMX scenarioLaterTemplate = [?j1] @ ?j2 # []"
    by (simp add: scenarioLaterTemplate_def)
  have h2: "Metrics ?j2 = [] \<or> (\<exists>j'\<in>set [?j1]. Metrics j' \<noteq> [] \<and> domainOf j' = domainOf ?j2)"
    by (simp add: domainOf_def)
  from conjunct1 [OF conjunct2 [OF fact]] h1 h2
  have "reduceJavaAgentYaml (scenarioLaterTemplate\<lparr>JMX := [?j1] @ ?j2\<lparr>RootMetricName := ''{k}''\<rparr> # []\<rparr>)
      = Inr dm"
    by blast
  then have c: "reduceJavaAgentYaml (scenarioLaterTemplate\<lparr>JMX :=
        [?j1, \<lparr>ObjectName = ''d:kv'', RootMetricName = ''{k}'',
            Metrics = [\<lparr>Attributes = ''y'', Type = ''simple''\<rparr>]\<rparr>]\<rparr>)
       = reduceJavaAgentYaml scenarioLaterTemplate"
    by (simp add: r)
  from a b c show ?thesis by (intro conjI)
qed

text \<open>
  C3, as it is stated, fails: the first declaration of the domain \<open>d\<close> carries the
  template \<open>A\<close> and no metric group, the second the template \<open>B\<close>, and the event type
  stored is the one of the second.
\<close>

theorem event_type_not_from_first_declaration:
  "eventTypeOf (reduceJavaAgentYaml scenarioNoMetricsFirst) ''d'' = Some ''MyApp_B''
   \<and> getEventName ''MyApp'' ''A'' ''k=v'' = Inr ''MyApp_A''"
  by code_simp

text \<open>
  C4, as the code has it. An object name with a colon is split at every colon: the
  domain is the text before the first colon and the query is the text between the first
  and the second colon (all the text after the first colon when there is no second).
  When \<^verbatim>\<open>reduceJavaAgentYaml\<close> returns, that query is the key of the bean in the
  domain, which holds the attributes of the declaration, and it is the query given to
  \<^verbatim>\<open>getEventName\<close> when the declaration is the one that creates the domain.
\<close>

theorem reduce_keys_are_first_two_fields:
  assumes colon: "CHR '':'' \<in> set (ObjectName j)"
    and "reduceJavaAgentYaml m = Inr dm"
    and "j \<in> set (JMX m)"
    and "Metrics j \<noteq> []"
  shows "goIndex (Split (ObjectName j) CHR '':'') 0 = Inr (domainOf j)
       \<and> goIndex (Split (ObjectName j) CHR '':'') 1 = Inr (queryOf j)
       \<and> (\<exists>dr b. dm (domainOf j) = Some dr \<and> BeansMap dr (queryOf j) = Some b
             \<and> attributeNames j \<subseteq> dom (AttributesMap b)
             \<and> (firstContributor m (domainOf j) = Some j \<longrightarrow>
                  getEventName (Name m) (RootMetricName j) (queryOf j) = Inr (EventType dr)))"
proof -
  from attributeNames_not_empty [OF assms(4)] obtain a0 where a0: "a0 \<in> attributeNames j" by blast
  from reduce_has_attribute [OF assms(2,3) a0] obtain r0 where
    "attrsAt dm (domainOf j, queryOf j) a0 = Some r0" by blast
  from attrsAt_SomeD [OF this] obtain dr b where
    dr: "dm (domainOf j) = Some dr" and b: "BeansMap dr (queryOf j) = Some b" by blast
  have sub: "attributeNames j \<subseteq> dom (AttributesMap b)"
  proof
    fix a assume "a \<in> attributeNames j"
    from reduce_has_attribute [OF assms(2,3) this] obtain r where
      "attrsAt dm (domainOf j, queryOf j) a = Some r" by blast
    then show "a \<in> dom (AttributesMap b)"
      by (auto simp: attrsAt_def dr b)
  qed
  have ev: "firstContributor m (domainOf j) = Some j \<Longrightarrow>
      getEventName (Name m) (RootMetricName j) (queryOf j) = Inr (EventType dr)"
  proof -
    assume fc: "firstContributor m (domainOf j) = Some j"
    have "eventView dm (domainOf j) =
        map_option (\<lambda>j. getEventName (Name m) (RootMetricName j) (queryOf j))
          (firstContributor m (domainOf j))"
      unfolding reduce_views(2) [OF assms(2)] firstContributor_def
      by (rule map_of_eventPairs_find)
    then show ?thesis by (simp add: fc eventView_def dr)
  qed
  show ?thesis
    using colon dr b sub ev
    by (simp add: goIndex_dq_0 goIndex_dq_1)
qed

theorem reduce_keys_are_first_two_fields_witness:
  "\<exists>dr b. reduceJavaAgentYaml scenarioTwoColons = Inr [''d'' \<mapsto> dr]
     \<and> BeansMap dr ''k=v'' = Some b \<and> {''count''} \<subseteq> dom (AttributesMap b)
     \<and> EventType dr = ''MyApp_v''"
proof -
  let ?j = "\<lparr>ObjectName = ''d:k=v:x'', RootMetricName = ''{k}'',
        Metrics = [\<lparr>Attributes = ''count'', Type = ''simple''\<rparr>]\<rparr>"
  let ?dr = "\<lparr>EventType = ''MyApp_v'', BeansMap =
        [''k=v'' \<mapsto> \<lparr>AttributesMap =
           [''count'' \<mapsto> \<lparr>MetricType = ''gauge'', MetricName = ''count''\<rparr>]\<rparr>]\<rparr>"
  have r: "reduceJavaAgentYaml scenarioTwoColons = Inr [''d'' \<mapsto> ?dr]"
    by (simp add: scenarioTwoColons_def reduce_eval resolver_eval trim_defs)
  have h1: "CHR '':'' \<in> set (ObjectName ?j)" by simp
  have h2: "?j \<in> set (JMX scenarioTwoColons)" by (simp add: scenarioTwoColons_def)
  have h3: "Metrics ?j \<noteq> []" by simp
  have d: "domainOf ?j = ''d''" and q: "queryOf ?j = ''k=v''"
    by (simp_all add: domainOf_def queryOf_def)
  have n: "attributeNames ?j = {''count''}"
    by (simp add: attributeNames_def trim_defs)
  have fc: "firstContributor scenarioTwoColons ''d'' = Some ?j"
    by (simp add: firstContributor_def scenarioTwoColons_def domainOf_def)
  have g: "getEventName (Name scenarioTwoColons) ''{k}'' ''k=v'' = Inr ''MyApp_v''"
    by code_simp
  from reduce_keys_are_first_two_fields [OF h1 r h2 h3]
  show ?thesis
    unfolding d q n by (auto simp: r fc g)
qed

text \<open>
  C4, as it is stated, fails: for the object name \<open>d:k=v:x\<close> the bean is stored under
  \<open>k=v\<close> and nothing under \<open>k=v:x\<close>, and the event type \<open>MyApp_v\<close> comes from the
  query \<open>k=v\<close>; the whole text after the first colon would give \<open>MyApp_v:x\<close>.
\<close>

theorem query_stops_at_second_colon:
  "attributeOf (reduceJavaAgentYaml scenarioTwoColons) ''d'' ''k=v:x'' ''count'' = None
   \<and> attributeOf (reduceJavaAgentYaml scenarioTwoColons) ''d'' ''k=v'' ''count''
       = Some \<lparr>MetricType = ''gauge'', MetricName = ''count''\<rparr>
   \<and> eventTypeOf (reduceJavaAgentYaml scenarioTwoColons) ''d'' = Some ''MyApp_v''
   \<and> getEventName ''MyApp'' ''{k}'' ''k=v:x'' = Inr ''MyApp_v:x''"
  by code_simp

text \<open>
  C8. When the reducer reaches a declaration whose object name has no colon, and the
  declaration has a metric group or its domain (the whole name) is already in the map,
  \<^verbatim>\<open>reduceJavaAgentYaml\<close> panics with an index out of range; it returns no map and
  no error value.
\<close>

theorem reduce_no_colon_panics:
  assumes "JMX m = pre @ j # post"
    and "reduceLoop (Name m) Map.empty pre = Inr dm"
    and "CHR '':'' \<notin> set (ObjectName j)"
    and "Metrics j \<noteq> [] \<or> dm (ObjectName j) \<noteq> None"
  shows "reduceJavaAgentYaml m = Inl IndexOutOfRange"
  using reduceObject_no_colon [where j = j and dm = dm and mName = "Name m", OF assms(3,4)]
  by (simp add: reduceJavaAgentYaml_def assms(1,2) reduceLoop_append)

theorem reduce_no_colon_panics_witness:
  "reduceJavaAgentYaml scenarioNoColon = Inl IndexOutOfRange"
proof -
  let ?j = "\<lparr>ObjectName = ''nocolon'', RootMetricName = '''',
        Metrics = [\<lparr>Attributes = ''x'', Type = ''simple''\<rparr>]\<rparr>"
  have h1: "JMX scenarioNoColon = [] @ ?j # []" by (simp add: scenarioNoColon_def)
  have h2: "reduceLoop (Name scenarioNoColon) Map.empty [] = Inr Map.empty" by simp
  have h3: "CHR '':'' \<notin> set (ObjectName ?j)" by simp
  have h4: "Metrics ?j \<noteq> [] \<or> Map.empty (ObjectName ?j) \<noteq> (None :: domainReducer option)" by simp
  show ?thesis by (rule reduce_no_colon_panics [OF h1 h2 h3 h4])
qed

text \<open>
  C10. When \<^verbatim>\<open>reduceJavaAgentYaml\<close> returns and a metric group of a declaration has
  an attribute string that is empty, has two commas in a row or ends with a comma, the
  split at the commas has an empty segment, which trimming leaves empty, and the bean
  of that declaration holds an entry under the empty attribute name, whose metric
  name is empty; \<^verbatim>\<open>buildCollectionDefinition\<close> returns on the result, and each of
  its outputs lists, under the domain and the query of the declaration, an attribute
  whose name and metric name are empty.
\<close>

theorem reduce_keeps_empty_attribute:
  assumes "reduceJavaAgentYaml m = Inr dm"
    and "j \<in> set (JMX m)"
    and "g \<in> set (Metrics j)"
    and "hasEmptySegment (Attributes g)"
  shows "[] \<in> set (Split (Attributes g) CHR '','') \<and> TrimSpace [] = []
       \<and> (\<exists>r. attrsAt dm (domainOf j, queryOf j) [] = Some r \<and> MetricName r = [])
       \<and> (\<exists>domains. buildCollectionDefinition dm domains)
       \<and> (\<forall>domains. buildCollectionDefinition dm domains \<longrightarrow>
            (\<exists>dout\<in>set domains. Domain_o dout = domainOf j \<and>
               (\<exists>bout\<in>set (Beans dout). Query bout = queryOf j \<and>
                  (\<exists>aout\<in>set (Attributes_o bout). Attr aout = [] \<and> MetricName_o aout = []))))"
proof -
  have "[] \<in> attributeNames j" using assms(3,4) by (rule empty_attribute_name)
  from reduce_has_attribute [OF assms(1,2) this] obtain r where
    r: "attrsAt dm (domainOf j, queryOf j) [] = Some r" "MetricName r = []" by blast
  from attrsAt_SomeD [OF r(1)] obtain dr b where
    p: "dm (domainOf j) = Some dr" "BeansMap dr (queryOf j) = Some b" "AttributesMap b [] = Some r"
    by blast
  have "\<exists>dout\<in>set domains. Domain_o dout = domainOf j \<and>
               (\<exists>bout\<in>set (Beans dout). Query bout = queryOf j \<and>
                  (\<exists>aout\<in>set (Attributes_o bout). Attr aout = [] \<and> MetricName_o aout = []))"
    if "buildCollectionDefinition dm domains" for domains
    using emitted_attribute [OF that p] by (simp add: r(2))
  with r emitter_returns_after_reducer [OF assms(1)] hasEmptySegment_Split [OF assms(4)]
    TrimSpace_Nil
  show ?thesis by blast
qed

theorem reduce_keeps_empty_attribute_witness:
  "reduceJavaAgentYaml scenarioEmptySegment = Inr modelEmptySegment
   \<and> hasEmptySegment ''a,,b''
   \<and> buildCollectionDefinition modelEmptySegment outputEmptySegment
   \<and> (\<exists>r. attrsAt modelEmptySegment (''d'', ''k=v'') [] = Some r \<and> MetricName r = [])
   \<and> (\<exists>dout\<in>set outputEmptySegment. Domain_o dout = ''d'' \<and>
         (\<exists>bout\<in>set (Beans dout). Query bout = ''k=v'' \<and>
            (\<exists>aout\<in>set (Attributes_o bout). Attr aout = [] \<and> MetricName_o aout = [])))"
proof -
  let ?g = "\<lparr>Attributes = ''a,,b'', Type = ''simple''\<rparr>"
  let ?j = "\<lparr>ObjectName = ''d:k=v'', RootMetricName = '''', Metrics = [?g]\<rparr>"
  have h2: "?j \<in> set (JMX scenarioEmptySegment)" by (simp add: scenarioEmptySegment_def)
  have h3: "?g \<in> set (Metrics ?j)" by simp
  have e: "hasEmptySegment ''a,,b''"
    unfolding hasEmptySegment_def by (intro disjI2 disjI1 exI [of _ "''a''"] exI [of _ "''b''"]) simp
  then have h4: "hasEmptySegment (Attributes ?g)" by simp
  have d: "domainOf ?j = ''d''" and q: "queryOf ?j = ''k=v''"
    by (simp_all add: domainOf_def queryOf_def)
  from reduce_keeps_empty_attribute [OF reduce_scenarioEmptySegment h2 h3 h4]
    build_outputEmptySegment
  show ?thesis
    unfolding d q using reduce_scenarioEmptySegment e by blast
qed

subsection \<open>Metric kinds and event names\<close>

text \<open>
  C5, as the code has it. For a non-empty template and a query whose every pair has an
  \<open>=\<close> (or a template without placeholder), \<^verbatim>\<open>getEventName\<close> returns the sanitized
  concatenation of the application name (the default name when it is empty), \<open>_\<close> and
  the template after substitution. The value of a key is the text between the first and
  the second \<open>=\<close> of its pair, and the last pair of a key counts. The placeholders
  found in the template are all the brace pairs around one or more word characters that
  occur in it; they are taken from left to right, and each one whose name is a key is
  replaced, everywhere in the template as it is by then, by the value of the key. When
  no placeholder names a key the template is left as it is.
\<close>

theorem getEventName_substitutes:
  assumes "template \<noteq> []"
    and "\<not> hasPlaceholder template \<or> (\<forall>p\<in>set (Split query CHR '',''). CHR ''='' \<in> set p)"
  shows "set (FindAllString template) =
           {ph. \<exists>pre w post. template = pre @ ''{'' @ w @ ''}'' @ post \<and> ph = ''{'' @ w @ ''}''
                  \<and> w \<noteq> [] \<and> list_all isWordChar w}
         \<and> getEventName appName template query =
           Inr (makeInsightsCompliantEventType
                 ((if appName = [] then defaultEventType else appName) @ ''_'' @
                  fold (substituteOne (queryMapping query)) (FindAllString template) template))
         \<and> ((\<forall>ph\<in>set (FindAllString template). queryMapping query (placeholderName ph) = None) \<longrightarrow>
              getEventName appName template query =
                Inr (makeInsightsCompliantEventType
                      ((if appName = [] then defaultEventType else appName) @ ''_'' @ template)))"
proof -
  have main: "getEventName appName template query =
           Inr (makeInsightsCompliantEventType
                 ((if appName = [] then defaultEventType else appName) @ ''_'' @
                  fold (substituteOne (queryMapping query)) (FindAllString template) template))"
  proof (cases "MatchString template")
    case False
    then show ?thesis
      using assms(1) by (simp add: getEventName_def FindAllString_no_match sep_def)
  next
    case True
    with assms(2) have "\<forall>p\<in>set (Split query CHR '',''). CHR ''='' \<in> set p"
      by (simp add: MatchString_hasPlaceholder)
    then have "buildQueryMap (Split query CHR '','') Map.empty = Inr (queryMapping query)"
      by (simp add: buildQueryMap_ok queryMapping_def)
    then show ?thesis
      using assms(1) True by (simp add: getEventName_def substituteMatches_found sep_def)
  qed
  then have unresolved:
    "(\<forall>ph\<in>set (FindAllString template). queryMapping query (placeholderName ph) = None) \<longrightarrow>
       getEventName appName template query =
         Inr (makeInsightsCompliantEventType
               ((if appName = [] then defaultEventType else appName) @ ''_'' @ template))"
    by (simp add: fold_substituteOne_unresolved)
  show ?thesis
    by (intro conjI) (rule FindAllString_set, rule main, rule unresolved)
qed

theorem getEventName_substitutes_witness:
  "''Pool_{name}'' \<noteq> []
   \<and> list_all (\<lambda>p. CHR ''='' \<in> set p) (Split ''name=Foo,type=Bar'' CHR '','')
   \<and> getEventName ''MyApp'' ''Pool_{name}'' ''name=Foo,type=Bar'' = Inr ''MyApp_Pool_Foo''"
proof -
  have h1: "''Pool_{name}'' \<noteq> []" by simp
  have h2: "\<forall>p\<in>set (Split ''name=Foo,type=Bar'' CHR '',''). CHR ''='' \<in> set p" by simp
  have "getEventName ''MyApp'' ''Pool_{name}'' ''name=Foo,type=Bar'' =
          Inr (makeInsightsCompliantEventType
                (''MyApp'' @ ''_'' @
                 fold (substituteOne (queryMapping ''name=Foo,type=Bar''))
                   (FindAllString ''Pool_{name}'') ''Pool_{name}''))"
    using conjunct1 [OF conjunct2 [OF getEventName_substitutes [OF h1 disjI2 [OF h2], of "''MyApp''"]]]
    by simp
  also have "\<dots> = Inr ''MyApp_Pool_Foo''"
    by (simp add: spec_eval resolver_eval)
  finally show ?thesis using h1 h2 by (simp add: list_all_iff)
qed

text \<open>
  C5, as it is stated, fails: the value of \<open>name\<close> in the pair \<open>name=a=b\<close> is \<open>a\<close>, not
  everything after the first \<open>=\<close>.
\<close>

theorem getEventName_value_stops_at_second_equals:
  "getEventName ''MyApp'' ''Pool_{name}'' ''name=a=b'' = Inr ''MyApp_Pool_a''
   \<and> getEventName ''MyApp'' ''Pool_{name}'' ''name=a=b'' \<noteq> Inr ''MyApp_Pool_a=b''"
  by (simp add: resolver_eval)

text \<open>
  C6. \<^verbatim>\<open>convertMetricType\<close> maps the kind, trimmed of the white space around it, to
  \<open>gauge\<close> for \<open>simple\<close>, to \<open>delta\<close> for \<open>monotonically_increasing\<close> and to \<open>gauge\<close>
  for every other value, the empty and the unknown ones included; on a kind that
  neither starts nor ends with white space this is the mapping of the kind itself. The
  comparison is case-sensitive; white space is trimmed at both ends, Unicode white
  space included, and a byte that only looks like the end of one is not. It is a total
  function: it has no error to raise.
\<close>

theorem convertMetricType_mapping:
  "convertMetricType s =
     (if TrimSpace s = ''simple'' then ''gauge''
      else if TrimSpace s = ''monotonically_increasing'' then ''delta''
      else ''gauge'')
   \<and> (leadingSpace s = 0 \<and> trailingSpace (rev s) = 0 \<longrightarrow>
        convertMetricType s =
          (if s = ''simple'' then ''gauge''
           else if s = ''monotonically_increasing'' then ''delta''
           else ''gauge''))
   \<and> convertMetricType ''simple'' = ''gauge''
   \<and> convertMetricType ''monotonically_increasing'' = ''delta''
   \<and> convertMetricType '''' = ''gauge''
   \<and> convertMetricType ''bogus'' = ''gauge''
   \<and> convertMetricType ''Simple'' = ''gauge''
   \<and> convertMetricType ''Monotonically_Increasing'' = ''gauge''
   \<and> convertMetricType ''monotonically_increasing  '' = ''delta''
   \<and> convertMetricType (CHR 0xC2 # CHR 0xA0 # ''monotonically_increasing'' @ [CHR 0xE2, CHR 0x80, CHR 0x83])
       = ''delta''
   \<and> convertMetricType (''monotonically_increasing'' @ [CHR 0xA0]) = ''gauge''"
proof -
  have general: "convertMetricType s =
     (if TrimSpace s = ''simple'' then ''gauge''
      else if TrimSpace s = ''monotonically_increasing'' then ''delta''
      else ''gauge'')"
    by (simp add: convertMetricType_def)
  have pretrimmed: "leadingSpace s = 0 \<and> trailingSpace (rev s) = 0 \<longrightarrow>
        convertMetricType s =
          (if s = ''simple'' then ''gauge''
           else if s = ''monotonically_increasing'' then ''delta''
           else ''gauge'')"
    by (simp add: convertMetricType_def TrimSpace_pretrimmed)
  have concrete: "convertMetricType ''simple'' = ''gauge''"
    "convertMetricType ''monotonically_increasing'' = ''delta''"
    "convertMetricType '''' = ''gauge''"
    "convertMetricType ''bogus'' = ''gauge''"
    "convertMetricType ''Simple'' = ''gauge''"
    "convertMetricType ''Monotonically_Increasing'' = ''gauge''"
    "convertMetricType ''monotonically_increasing  '' = ''delta''"
    "convertMetricType (CHR 0xC2 # CHR 0xA0 # ''monotonically_increasing'' @ [CHR 0xE2, CHR 0x80, CHR 0x83])
       = ''delta''"
    "convertMetricType (''monotonically_increasing'' @ [CHR 0xA0]) = ''gauge''"
    by code_simp+
  from general pretrimmed concrete show ?thesis by (intro conjI)
qed

theorem convertMetricType_mapping_witness:
  "leadingSpace ''bogus'' = 0 \<and> trailingSpace (rev ''bogus'') = 0
   \<and> convertMetricType ''bogus'' = ''gauge''
   \<and> leadingSpace ''monotonically_increasing'' = 0
   \<and> trailingSpace (rev ''monotonically_increasing'') = 0
   \<and> convertMetricType ''monotonically_increasing'' = ''delta''"
proof -
  have h1: "leadingSpace ''bogus'' = 0 \<and> trailingSpace (rev ''bogus'') = 0" by code_simp
  have h2: "leadingSpace ''monotonically_increasing'' = 0
      \<and> trailingSpace (rev ''monotonically_increasing'') = 0" by code_simp
  from mp [OF conjunct1 [OF conjunct2 [OF convertMetricType_mapping [of "''bogus''"]]] h1]
  have a: "convertMetricType ''bogus'' = ''gauge''" by simp
  from mp [OF conjunct1 [OF conjunct2 [OF convertMetricType_mapping [of "''monotonically_increasing''"]]] h2]
  have b: "convertMetricType ''monotonically_increasing'' = ''delta''" by simp
  from h1 h2 a b show ?thesis by simp
qed

text \<open>
  C9. When the template contains a placeholder and some comma-separated pair of the
  query has no \<open>=\<close>, \<^verbatim>\<open>getEventName\<close> panics with an index out of range: it returns
  no string and does not skip the pair.
\<close>

theorem getEventName_pair_without_equals:
  assumes "hasPlaceholder template"
    and "p \<in> set (Split query CHR '','')"
    and "CHR ''='' \<notin> set p"
  shows "getEventName appName template query = Inl IndexOutOfRange"
proof -
  have "template \<noteq> []" using assms(1) by (rule hasPlaceholder_not_Nil)
  moreover have "MatchString template" using assms(1) by (simp add: MatchString_hasPlaceholder)
  moreover have "buildQueryMap (Split query CHR '','') Map.empty = Inl IndexOutOfRange"
    using assms(2,3) by (rule buildQueryMap_panic)
  ultimately show ?thesis by (simp add: getEventName_def)
qed

theorem getEventName_pair_without_equals_witness:
  "hasPlaceholder ''Pool_{name}''
   \<and> ''bar'' \<in> set (Split ''name=Foo,bar'' CHR '','')
   \<and> CHR ''='' \<notin> set ''bar''
   \<and> getEventName ''MyApp'' ''Pool_{name}'' ''name=Foo,bar'' = Inl IndexOutOfRange"
proof -
  have h1: "hasPlaceholder ''Pool_{name}''"
    by (simp add: MatchString_hasPlaceholder [symmetric] matchLen_def isWordChar_def)
  have h2: "''bar'' \<in> set (Split ''name=Foo,bar'' CHR '','')" by simp
  have h3: "CHR ''='' \<notin> set ''bar''" by simp
  show ?thesis
    using h1 h2 h3 getEventName_pair_without_equals [OF h1 h2 h3, of "''MyApp''"] by simp
qed

subsection \<open>The emitter\<close>

text \<open>
  C7, as the code has it. Two runs of \<^verbatim>\<open>buildCollectionDefinition\<close> on one map give
  outputs that are equal up to the order of the domains, of the beans of each domain
  and of the attributes of each bean: every domain, bean and attribute of the map is
  listed once in both, with the same event type, metric kind and metric name. The
  order is the one in which Go ranges over the maps, which is not fixed.
\<close>

theorem emission_same_up_to_order:
  assumes "buildCollectionDefinition dr domains1"
    and "buildCollectionDefinition dr domains2"
  shows "canonical domains1 = canonical domains2
       \<and> distinct (map Domain_o domains1)
       \<and> (\<forall>d\<in>set domains1. distinct (map Query (Beans d))
             \<and> (\<forall>b\<in>set (Beans d). distinct (map Attr (Attributes_o b))))"
proof -
  let ?R = "\<lambda>(domain, domainContents) (out :: domainOutput).
              Domain_o out = domain \<and> EventType_o out = EventType domainContents
              \<and> buildBeans domainContents (Beans out)"
  from assms(1) obtain kvs1 where k1: "rangeMap dr kvs1" and l1: "list_all2 ?R kvs1 domains1"
    by cases auto
  from assms(2) obtain kvs2 where k2: "rangeMap dr kvs2" and l2: "list_all2 ?R kvs2 domains2"
    by cases auto
  have "canonical domains1 = canonical domains2"
    unfolding canonical_def
  proof (rule two_runs_same_multiset [OF rangeMap_mset [OF k1 k2] l1 l2])
    fix x y y'
    assume "?R x y" "?R x y'"
    then show "canonicalDomain y = canonicalDomain y'"
      by (cases x) (auto simp: canonicalDomain_def dest: buildBeans_canonical)
  qed
  with buildCollectionDefinition_distinct [OF assms(1)] show ?thesis by blast
qed

theorem emission_same_up_to_order_witness:
  "buildCollectionDefinition modelTwoDeclarations outputCountFirst
   \<and> buildCollectionDefinition modelTwoDeclarations outputErrorsFirst
   \<and> canonical outputCountFirst = canonical outputErrorsFirst"
  using conjunct1 [OF emission_same_up_to_order [OF build_outputCountFirst build_outputErrorsFirst]]
    build_outputCountFirst build_outputErrorsFirst
  by blast

text \<open>
  C7, as it is stated, fails: the map that the reducer makes of two declarations has
  two outputs that differ in the order of the attributes \<open>count\<close> and \<open>errors\<close>.
\<close>

theorem emission_order_not_determined:
  "reduceJavaAgentYaml scenarioTwoDeclarations = Inr modelTwoDeclarations
   \<and> buildCollectionDefinition modelTwoDeclarations outputCountFirst
   \<and> buildCollectionDefinition modelTwoDeclarations outputErrorsFirst
   \<and> outputCountFirst \<noteq> outputErrorsFirst"
  using reduce_scenarioTwoDeclarations build_outputCountFirst build_outputErrorsFirst
  by (simp add: outputCountFirst_def outputErrorsFirst_def)

end
